theory Spec2Isabelle
  imports Complex_Main "HOL-Library.AList" "HOL-Library.Sublist"
begin

section \<open>The HTTP retry loop: \<^verbatim>\<open>JiraScraper._request\<close> (jira_client.py)\<close>

text \<open>
  Every \<^verbatim>\<open>raise JiraClientError(...)\<close> of the source is one constructor, named after the
  message the source builds. All of them are the one Python class \<^verbatim>\<open>JiraClientError\<close>.
\<close>

datatype jira_client_error =
    Network_error
  | Invalid_JSON_response
  | No_response_received
  | HTTP_status int
  | Max_retries_exceeded

text \<open>
  The exceptions that leave the functions modelled: a \<^verbatim>\<open>JiraClientError\<close>; the
  \<^verbatim>\<open>ValueError\<close> of \<^verbatim>\<open>time.sleep\<close> for a negative length and of \<^verbatim>\<open>int\<close> for a text that is
  not a number; the \<^verbatim>\<open>OverflowError\<close> of \<^verbatim>\<open>time.sleep\<close> for a length beyond its clock; the
  \<^verbatim>\<open>TypeError\<close> of iterating, converting or assigning into a value that does not allow
  it; the \<^verbatim>\<open>AttributeError\<close> of calling \<^verbatim>\<open>get\<close>, \<^verbatim>\<open>setdefault\<close> or \<^verbatim>\<open>append\<close> on a value that
  has no such method; the \<^verbatim>\<open>UnicodeEncodeError\<close> of writing a text that UTF-8 cannot
  encode.
\<close>

datatype py_exception =
    JiraClientError jira_client_error
  | ValueError
  | TypeError
  | AttributeError
  | OverflowError
  | UnicodeEncodeError

text \<open>
  What \<^verbatim>\<open>_request\<close> reads of an \<^verbatim>\<open>httpx\<close> response: the status code, the value of
  \<^verbatim>\<open>resp.headers.get("Retry-After")\<close> (\<open>None\<close> when the header is absent) and the result of
  \<^verbatim>\<open>resp.json()\<close> (\<open>None\<close> when it raises). A character of a header value is the code
  point of the same number, below 256.
\<close>

record 'j response =
  status_code :: int
  retry_after :: "string option"
  json_body :: "'j option"

text \<open>\<^verbatim>\<open>self.client.get\<close> either raises \<^verbatim>\<open>httpx.RequestError\<close> or returns a response.\<close>

datatype 'j outcome = RequestError | Response "'j response"

text \<open>The fields of \<^verbatim>\<open>JiraScraper\<close> that the loop reads.\<close>

record scraper =
  max_retries :: int
  backoff_factor :: int

text \<open>
  The world around one call of \<^verbatim>\<open>_request\<close>, indexed by the attempt number (from 1):
  the outcome of the \<open>k\<close>-th \<^verbatim>\<open>client.get\<close>, the value that \<^verbatim>\<open>random.uniform(a, b)\<close> returns
  during attempt \<open>k\<close>, and, for a header text \<open>h\<close>, the seconds
  \<^verbatim>\<open>(parsedate_to_datetime(h) - datetime.now(tz)).total_seconds()\<close> at attempt \<open>k\<close>
  (\<open>None\<close> when that expression raises). Seconds are rationals here; the source computes
  them in floating point.
\<close>

record 'j env =
  client_get :: "nat \<Rightarrow> 'j outcome"
  uniform :: "nat \<Rightarrow> rat \<Rightarrow> rat \<Rightarrow> rat"
  date_delta :: "nat \<Rightarrow> string \<Rightarrow> rat option"

text \<open>
  \<^verbatim>\<open>str.isdigit\<close>: the text is not empty and every character is a digit. Below 256 the
  digits are \<^verbatim>\<open>0\<close> to \<^verbatim>\<open>9\<close> and the superscripts two, three and one (U+00B2, U+00B3,
  U+00B9).
\<close>

definition is_ascii_digit :: "char \<Rightarrow> bool" where
  "is_ascii_digit c = (48 \<le> (of_char c :: nat) \<and> (of_char c :: nat) \<le> 57)"

definition is_superscript_digit :: "char \<Rightarrow> bool" where
  "is_superscript_digit c =
     ((of_char c :: nat) = 178 \<or> (of_char c :: nat) = 179 \<or> (of_char c :: nat) = 185)"

definition isdigit :: "string \<Rightarrow> bool" where
  "isdigit s = (s \<noteq> [] \<and> list_all (\<lambda>c. is_ascii_digit c \<or> is_superscript_digit c) s)"

text \<open>
  \<^verbatim>\<open>int(s)\<close> for a text \<open>s\<close> that passed \<^verbatim>\<open>isdigit\<close>: the number that the decimal digits
  write, and \<open>None\<close>, for the \<^verbatim>\<open>ValueError\<close> that \<^verbatim>\<open>int\<close> raises, when a superscript digit
  is among them. (The bound of \<^verbatim>\<open>int\<close> on the length of the text, 4300 digits unless
  configured, is not modelled: \<^verbatim>\<open>time.sleep\<close> refuses a wait of that size all the same.)
\<close>

definition int_of_digits :: "string \<Rightarrow> int" where
  "int_of_digits s = foldl (\<lambda>acc c. 10 * acc + (int (of_char c) - 48)) 0 s"

definition py_int :: "string \<Rightarrow> int option" where
  "py_int s = (if list_all is_ascii_digit s then Some (int_of_digits s) else None)"

text \<open>\<^verbatim>\<open>min(self.backoff_factor ** attempt, 60)\<close>\<close>

definition backoff :: "scraper \<Rightarrow> nat \<Rightarrow> rat" where
  "backoff s attempt = min (of_int (backoff_factor s ^ attempt)) 60"

text \<open>
  Lines 62-74, the \<^verbatim>\<open>Retry-After\<close> header of a 429: the value of \<^verbatim>\<open>wait_seconds\<close> after the
  block \<^verbatim>\<open>if retry_after:\<close> (\<open>Inr None\<close> when it is still \<^verbatim>\<open>None\<close>), or the \<^verbatim>\<open>ValueError\<close>
  of \<^verbatim>\<open>int(retry_after)\<close>, which is outside every \<^verbatim>\<open>try\<close>.
\<close>

definition hint :: "'j env \<Rightarrow> nat \<Rightarrow> 'j response \<Rightarrow> py_exception + rat option" where
  "hint e attempt resp =
     (case retry_after resp of
        None \<Rightarrow> Inr None
      | Some h \<Rightarrow>
          if h = [] then Inr None
          else if isdigit h then
            (case py_int h of
               Some seconds \<Rightarrow> Inr (Some (of_int seconds))
             | None \<Rightarrow> Inl ValueError)
          else (case date_delta e attempt h of
                  Some d \<Rightarrow> Inr (Some (max 0 d))
                | None \<Rightarrow> Inr None))"

text \<open>
  Lines 60-82, "Determine wait time", for a response whose status is not 200:
  \<open>Inr (w, hinted)\<close> is the value \<open>w\<close> of \<^verbatim>\<open>wait_seconds\<close>, with \<open>hinted\<close> telling whether it
  was taken from the header; \<open>Inl\<close> is the \<^verbatim>\<open>ValueError\<close> of the header, or the \<^verbatim>\<open>else\<close>
  branch that raises \<^verbatim>\<open>JiraClientError\<close>.
\<close>

definition wait_time ::
  "scraper \<Rightarrow> 'j env \<Rightarrow> nat \<Rightarrow> 'j response \<Rightarrow> py_exception + rat \<times> bool" where
  "wait_time s e attempt resp =
     (if status_code resp = 429 then
        (case hint e attempt resp of
           Inl exn \<Rightarrow> Inl exn
         | Inr (Some w) \<Rightarrow> Inr (w, True)
         | Inr None \<Rightarrow> Inr (backoff s attempt, False))
      else if 500 \<le> status_code resp \<and> status_code resp < 600
        then Inr (backoff s attempt, False)
      else Inl (JiraClientError (HTTP_status (status_code resp))))"

text \<open>
  \<^verbatim>\<open>time.sleep\<close> keeps the length in nanoseconds in a signed 64-bit integer and raises
  \<^verbatim>\<open>OverflowError\<close> for a length that does not fit: more than \<open>2 ^ 63 / 10 ^ 9\<close> seconds,
  some 292 years.
\<close>

definition sleep_limit :: rat where
  "sleep_limit = 2 ^ 63 / 10 ^ 9"

text \<open>\<^verbatim>\<open>random.uniform(0, 1 + 0.1 * attempt)\<close>\<close>

definition jitter :: "'j env \<Rightarrow> nat \<Rightarrow> rat" where
  "jitter e attempt = uniform e attempt 0 (1 + of_nat attempt / 10)"

text \<open>
  The \<^verbatim>\<open>while True\<close> loop. \<open>n\<close> is the value of \<^verbatim>\<open>attempt\<close> when an iteration starts
  (0 at the call), \<open>sleeps\<close> the arguments of the \<^verbatim>\<open>time.sleep\<close> calls that returned so
  far, oldest first. \<^verbatim>\<open>time.sleep\<close> raises \<^verbatim>\<open>ValueError\<close> when its argument is negative, and
  \<^verbatim>\<open>OverflowError\<close> when it is beyond \<open>sleep_limit\<close>. Only a wait taken from the header can
  be that long: the exponential wait is at most 60 and \<^verbatim>\<open>random.uniform\<close> adds less than
  \<open>1 + attempt / 10\<close> to it, so that exit is on the hinted wait. The result is what the call
  returns or raises, the number of \<^verbatim>\<open>client.get\<close> calls made, and the sleeps. (The branch
  \<^verbatim>\<open>if resp is None: raise JiraClientError("No response received")\<close> cannot be reached: a
  network fault ends the iteration before it.)
\<close>

function request_loop ::
  "scraper \<Rightarrow> 'j env \<Rightarrow> nat \<Rightarrow> rat list \<Rightarrow> (py_exception + 'j) \<times> nat \<times> rat list" where
  "request_loop s e n sleeps =
     (let attempt = n + 1 in
      case client_get e attempt of
        RequestError \<Rightarrow>
          (let sleep_for = backoff s attempt + jitter e attempt in
           if sleep_for < 0 then (Inl ValueError, attempt, sleeps)
           else if max_retries s \<le> int attempt
             then (Inl (JiraClientError Network_error), attempt, sleeps @ [sleep_for])
           else request_loop s e attempt (sleeps @ [sleep_for]))
      | Response resp \<Rightarrow>
          if status_code resp = 200 then
            (case json_body resp of
               Some j \<Rightarrow> (Inr j, attempt, sleeps)
             | None \<Rightarrow> (Inl (JiraClientError Invalid_JSON_response), attempt, sleeps))
          else
            (case wait_time s e attempt resp of
               Inl exn \<Rightarrow> (Inl exn, attempt, sleeps)
             | Inr (wait_seconds, hinted) \<Rightarrow>
                 (let sleep_for = wait_seconds + jitter e attempt in
                  if sleep_for < 0 then (Inl ValueError, attempt, sleeps)
                  else if hinted \<and> sleep_limit < sleep_for
                    then (Inl OverflowError, attempt, sleeps)
                  else if max_retries s \<le> int attempt
                    then (Inl (JiraClientError Max_retries_exceeded), attempt, sleeps @ [sleep_for])
                  else request_loop s e attempt (sleeps @ [sleep_for]))))"
  by pat_completeness auto
termination
  by (relation "measure (\<lambda>(s, e, n, sleeps). nat (max_retries s - int n))") auto

definition request :: "scraper \<Rightarrow> 'j env \<Rightarrow> (py_exception + 'j) \<times> nat \<times> rat list" where
  "request s e = request_loop s e 0 []"

text \<open>The three components of the result of a call.\<close>

definition result_of :: "(py_exception + 'j) \<times> nat \<times> rat list \<Rightarrow> py_exception + 'j" where
  "result_of x = fst x"

definition attempts_of :: "(py_exception + 'j) \<times> nat \<times> rat list \<Rightarrow> nat" where
  "attempts_of x = fst (snd x)"

definition sleeps_of :: "(py_exception + 'j) \<times> nat \<times> rat list \<Rightarrow> rat list" where
  "sleeps_of x = snd (snd x)"

text \<open>
  The outcomes after which the loop may sleep: a network fault, a 429, a 5xx.
\<close>

definition is_5xx :: "'j outcome \<Rightarrow> bool" where
  "is_5xx oc = (case oc of RequestError \<Rightarrow> False
     | Response r \<Rightarrow> 500 \<le> status_code r \<and> status_code r < 600)"

definition retryable :: "'j outcome \<Rightarrow> bool" where
  "retryable oc = (case oc of RequestError \<Rightarrow> True
     | Response r \<Rightarrow> status_code r = 429 \<or> (500 \<le> status_code r \<and> status_code r < 600))"

text \<open>
  One iteration of the loop up to its test of \<^verbatim>\<open>max_retries\<close>, as a value: attempt \<open>k\<close>
  returns, raises, or sleeps; \<open>Sleeps w err\<close> has the argument of the \<^verbatim>\<open>time.sleep\<close> that
  returned and the message of the \<^verbatim>\<open>JiraClientError\<close> raised when the attempt was the last
  one allowed. \<open>slept\<close> is that argument.
\<close>

datatype 'j turn = Returns 'j | Raises py_exception | Sleeps rat jira_client_error

definition turn :: "scraper \<Rightarrow> 'j env \<Rightarrow> nat \<Rightarrow> 'j turn" where
  "turn s e k =
     (case client_get e k of
        RequestError \<Rightarrow>
          (let sleep_for = backoff s k + jitter e k in
           if sleep_for < 0 then Raises ValueError else Sleeps sleep_for Network_error)
      | Response resp \<Rightarrow>
          if status_code resp = 200 then
            (case json_body resp of
               Some j \<Rightarrow> Returns j
             | None \<Rightarrow> Raises (JiraClientError Invalid_JSON_response))
          else
            (case wait_time s e k resp of
               Inl exn \<Rightarrow> Raises exn
             | Inr (wait_seconds, hinted) \<Rightarrow>
                 (let sleep_for = wait_seconds + jitter e k in
                  if sleep_for < 0 then Raises ValueError
                  else if hinted \<and> sleep_limit < sleep_for then Raises OverflowError
                  else Sleeps sleep_for Max_retries_exceeded)))"

definition slept :: "scraper \<Rightarrow> 'j env \<Rightarrow> nat \<Rightarrow> rat" where
  "slept s e k = (case turn s e k of Sleeps w err \<Rightarrow> w | _ \<Rightarrow> 0)"

text \<open>
  The base wait as the specification words it: the server's hint for a 429 that carries
  one (numeric seconds, or a calendar date turned into a duration and clamped at zero),
  and \<open>min (backoff_factor ^ k) 60\<close> for a 429 without a usable hint, a 5xx and a network
  fault.
\<close>

definition spec_hint :: "'j env \<Rightarrow> nat \<Rightarrow> 'j response \<Rightarrow> rat option" where
  "spec_hint e k r =
     (case retry_after r of
        None \<Rightarrow> None
      | Some h \<Rightarrow>
          if h = [] then None
          else if isdigit h then Some (of_int (int_of_digits h))
          else map_option (max 0) (date_delta e k h))"

definition spec_base_wait :: "scraper \<Rightarrow> 'j env \<Rightarrow> nat \<Rightarrow> 'j outcome \<Rightarrow> rat" where
  "spec_base_wait s e k oc =
     (let exponential = min (of_int (backoff_factor s) ^ k) 60 in
      case oc of
        RequestError \<Rightarrow> exponential
      | Response r \<Rightarrow>
          if status_code r = 429
          then (case spec_hint e k r of Some w \<Rightarrow> w | None \<Rightarrow> exponential)
          else exponential)"

text \<open>
  Example worlds: every attempt is answered 500; every attempt ends in a network fault.
  \<^verbatim>\<open>random.uniform(a, b)\<close> returns \<open>b\<close>.
\<close>

definition env_500 :: "unit env" where
  "env_500 =
     \<lparr>client_get = (\<lambda>k. Response \<lparr>status_code = 500, retry_after = None, json_body = None\<rparr>),
      uniform = (\<lambda>k a b. b), date_delta = (\<lambda>k h. None)\<rparr>"

definition env_fault :: "unit env" where
  "env_fault =
     \<lparr>client_get = (\<lambda>k. RequestError),
      uniform = (\<lambda>k a b. b), date_delta = (\<lambda>k h. None)\<rparr>"

text \<open>
  An example world: the first attempt is answered 429 with \<^verbatim>\<open>Retry-After: 7\<close>, every later
  one 200 with a body that parses; \<^verbatim>\<open>random.uniform(a, b)\<close> returns \<open>b / 2\<close>.
\<close>

definition env_429 :: "unit env" where
  "env_429 = \<lparr>client_get = (\<lambda>k. if k = 1 then Response \<lparr>status_code = 429, retry_after = Some ''7'', json_body = None\<rparr>
        else Response \<lparr>status_code = 200, retry_after = None, json_body = Some ()\<rparr>),
       uniform = (\<lambda>k a b. b / 2), date_delta = (\<lambda>k h. None)\<rparr>"

section \<open>Pagination: the two generators of \<^verbatim>\<open>JiraScraper\<close> (jira_client.py)\<close>

text \<open>
  The \<^verbatim>\<open>params\<close> dictionary of a search request (\<^verbatim>\<open>fields\<close> is the constant \<^verbatim>\<open>"*all"\<close>).
\<close>

record params =
  jql_project :: string
  startAt :: int
  maxResults :: int

text \<open>
  What the generators read of the dictionary that \<^verbatim>\<open>_request\<close> returns:
  \<^verbatim>\<open>data.get("issues", [])\<close>, and the \<^verbatim>\<open>"total"\<close> member, \<open>None\<close> when the key is absent
  (then \<^verbatim>\<open>data.get("total", total)\<close> keeps the old value), \<open>Some t\<close> when it is present
  (\<open>t = None\<close> for a JSON null).
\<close>

record 'i search_data =
  data_issues :: "'i list"
  data_total :: "int option option"

text \<open>
  The server seen by a generator: the world of its \<open>n\<close>-th call of \<^verbatim>\<open>_request\<close>
  (\<open>n\<close> from 0), made with the given \<^verbatim>\<open>params\<close>.
\<close>

type_synonym 'i api = "nat \<Rightarrow> params \<Rightarrow> 'i search_data env"

text \<open>How a generator ends: it is exhausted, or an error of \<^verbatim>\<open>_request\<close> leaves it.\<close>

datatype gen_end = Exhausted | Raised py_exception

text \<open>\<^verbatim>\<open>max_issues and fetched >= max_issues\<close>: \<open>None\<close> and 0 are both false in Python.\<close>

definition cap_reached :: "int option \<Rightarrow> int \<Rightarrow> bool" where
  "cap_reached max_issues fetched =
     (case max_issues of None \<Rightarrow> False | Some m \<Rightarrow> m \<noteq> 0 \<and> m \<le> fetched)"

text \<open>\<^verbatim>\<open>total is not None and current >= total\<close>\<close>

definition past_total :: "int option \<Rightarrow> int \<Rightarrow> bool" where
  "past_total tot current = (case tot of None \<Rightarrow> False | Some t \<Rightarrow> t \<le> current)"

type_synonym 'i page = "'i list \<times> int \<times> int option"

text \<open>
  The \<^verbatim>\<open>while True\<close> loop of \<^verbatim>\<open>fetch_issue_pages_for_project\<close>. The loop need not end
  (a server may return non-empty pages for ever), so the first argument bounds the number
  of iterations: the result is the pages yielded within that bound, oldest first, and
  how the generator ended, \<open>None\<close> when it was still running.
\<close>

fun fetch_pages_loop ::
  "nat \<Rightarrow> scraper \<Rightarrow> 'i api \<Rightarrow> string \<Rightarrow> int \<Rightarrow> int option \<Rightarrow>
   nat \<Rightarrow> int option \<Rightarrow> int \<Rightarrow> int \<Rightarrow> 'i page list \<times> gen_end option" where
  "fetch_pages_loop 0 s api project_key page_size max_issues n tot fetched current = ([], None)"
| "fetch_pages_loop (Suc fuel) s api project_key page_size max_issues n tot fetched current =
     (case result_of (request s (api n
              \<lparr>jql_project = project_key, startAt = current, maxResults = page_size\<rparr>)) of
        Inl err \<Rightarrow> ([], Some (Raised err))
      | Inr data \<Rightarrow>
          (let tot' = (case data_total data of None \<Rightarrow> tot | Some t \<Rightarrow> t) in
           if data_issues data = [] then ([], Some Exhausted)
           else
             (let page = (data_issues data, current, tot');
                  fetched' = fetched + int (length (data_issues data)) in
              if cap_reached max_issues fetched' then ([page], Some Exhausted)
              else
                (let current' = current + int (length (data_issues data)) in
                 if past_total tot' current' then ([page], Some Exhausted)
                 else
                   (case fetch_pages_loop fuel s api project_key page_size max_issues
                           (Suc n) tot' fetched' current' of
                      (pages, fin) \<Rightarrow> (page # pages, fin))))))"

definition fetch_issue_pages_for_project ::
  "nat \<Rightarrow> scraper \<Rightarrow> 'i api \<Rightarrow> string \<Rightarrow> int \<Rightarrow> int option \<Rightarrow> int \<Rightarrow>
   'i page list \<times> gen_end option" where
  "fetch_issue_pages_for_project fuel s api project_key page_size max_issues start_at =
     fetch_pages_loop fuel s api project_key page_size max_issues 0 None 0 start_at"

text \<open>
  The \<^verbatim>\<open>for issue in issues\<close> loop of \<^verbatim>\<open>fetch_issues_for_project\<close>: the issues yielded,
  the new value of \<^verbatim>\<open>fetched\<close>, and whether the \<^verbatim>\<open>return\<close> was taken.
\<close>

fun yield_issues :: "int option \<Rightarrow> int \<Rightarrow> 'i list \<Rightarrow> 'i list \<times> int \<times> bool" where
  "yield_issues max_issues fetched [] = ([], fetched, False)"
| "yield_issues max_issues fetched (issue # rest) =
     (let fetched' = fetched + 1 in
      if cap_reached max_issues fetched' then ([issue], fetched', True)
      else (case yield_issues max_issues fetched' rest of
              (ys, f, returned) \<Rightarrow> (issue # ys, f, returned)))"

fun fetch_issues_loop ::
  "nat \<Rightarrow> scraper \<Rightarrow> 'i api \<Rightarrow> string \<Rightarrow> int \<Rightarrow> int option \<Rightarrow>
   nat \<Rightarrow> int option \<Rightarrow> int \<Rightarrow> int \<Rightarrow> 'i list \<times> gen_end option" where
  "fetch_issues_loop 0 s api project_key page_size max_issues n tot fetched start_at = ([], None)"
| "fetch_issues_loop (Suc fuel) s api project_key page_size max_issues n tot fetched start_at =
     (case result_of (request s (api n
              \<lparr>jql_project = project_key, startAt = start_at, maxResults = page_size\<rparr>)) of
        Inl err \<Rightarrow> ([], Some (Raised err))
      | Inr data \<Rightarrow>
          (let tot' = (case data_total data of None \<Rightarrow> tot | Some t \<Rightarrow> t) in
           if data_issues data = [] then ([], Some Exhausted)
           else
             (case yield_issues max_issues fetched (data_issues data) of
                (ys, fetched', returned) \<Rightarrow>
                  if returned then (ys, Some Exhausted)
                  else
                    (let start_at' = start_at + int (length (data_issues data)) in
                     if past_total tot' start_at' then (ys, Some Exhausted)
                     else
                       (case fetch_issues_loop fuel s api project_key page_size max_issues
                               (Suc n) tot' fetched' start_at' of
                          (later, fin) \<Rightarrow> (ys @ later, fin))))))"

definition fetch_issues_for_project ::
  "nat \<Rightarrow> scraper \<Rightarrow> 'i api \<Rightarrow> string \<Rightarrow> int \<Rightarrow> int option \<Rightarrow> 'i list \<times> gen_end option" where
  "fetch_issues_for_project fuel s api project_key page_size max_issues =
     fetch_issues_loop fuel s api project_key page_size max_issues 0 None 0 0"

section \<open>The checkpoint store (checkpoint.py)\<close>

text \<open>
  The checkpoint document has the shape
  \<^verbatim>\<open>{"projects": {<project>: {"downloaded_keys": [...], "last_start": n}}}\<close>; every member
  may be absent. An entry of \<^verbatim>\<open>"projects"\<close> is a record of two optional members, the
  document is its \<^verbatim>\<open>"projects"\<close> member (\<open>None\<close> when the document has none).
\<close>

record project_entry =
  downloaded_keys :: "string list option"
  last_start :: "int option"

type_synonym checkpoint_data = "(string \<rightharpoonup> project_entry) option"

text \<open>
  The file \<^verbatim>\<open>checkpoint.json\<close>: it does not exist, or opening and parsing it raises, or it
  holds a document. A document that parses is taken to have the shape above; the
  dictionary reads of this module do not raise on such a document. File writes succeed.
  (A file that holds any JSON value, and writes that fail, are in the section on the
  store on any file.)
\<close>

datatype checkpoint_file = Missing | Unparseable | Parsed checkpoint_data

text \<open>The \<^verbatim>\<open>with p.open(...) as f: return json.load(f)\<close> block: \<open>None\<close> when it raises.\<close>

definition json_load :: "checkpoint_file \<Rightarrow> checkpoint_data option" where
  "json_load f = (case f of Parsed d \<Rightarrow> Some d | Unparseable \<Rightarrow> None | Missing \<Rightarrow> None)"

text \<open>\<^verbatim>\<open>{"projects": {}}\<close>\<close>

definition default_data :: checkpoint_data where
  "default_data = Some Map.empty"

definition load_checkpoint :: "checkpoint_file \<Rightarrow> checkpoint_data" where
  "load_checkpoint f =
     (case f of
        Missing \<Rightarrow> default_data
      | _ \<Rightarrow> (case json_load f of Some d \<Rightarrow> d | None \<Rightarrow> default_data))"

definition save_checkpoint :: "checkpoint_data \<Rightarrow> checkpoint_file" where
  "save_checkpoint data = Parsed data"

text \<open>
  The reads with a default: \<^verbatim>\<open>data.get("projects", {})\<close> (and \<^verbatim>\<open>setdefault\<close>, which
  returns the same value), \<^verbatim>\<open>projects.get(project, {})\<close>, \<^verbatim>\<open>proj.get("downloaded_keys", [])\<close>.
\<close>

definition projects_of :: "checkpoint_data \<Rightarrow> (string \<rightharpoonup> project_entry)" where
  "projects_of data = (case data of None \<Rightarrow> Map.empty | Some ps \<Rightarrow> ps)"

definition empty_entry :: project_entry where
  "empty_entry = \<lparr>downloaded_keys = None, last_start = None\<rparr>"

definition proj_of :: "(string \<rightharpoonup> project_entry) \<Rightarrow> string \<Rightarrow> project_entry" where
  "proj_of ps project = (case ps project of None \<Rightarrow> empty_entry | Some e \<Rightarrow> e)"

definition keys_of :: "project_entry \<Rightarrow> string list" where
  "keys_of proj = (case downloaded_keys proj of None \<Rightarrow> [] | Some ks \<Rightarrow> ks)"

definition is_downloaded :: "string \<Rightarrow> string \<Rightarrow> checkpoint_file \<Rightarrow> bool" where
  "is_downloaded project issue_key f =
     (let data = load_checkpoint f;
          proj = proj_of (projects_of data) project;
          keys = keys_of proj
      in issue_key \<in> set keys)"

text \<open>
  \<^verbatim>\<open>mark_downloaded\<close> reads the file, changes the dictionary in memory (the three
  \<^verbatim>\<open>setdefault\<close> lines and the \<^verbatim>\<open>append\<close>) and writes the dictionary back.
\<close>

definition mark_in_memory :: "string \<Rightarrow> string \<Rightarrow> checkpoint_data \<Rightarrow> checkpoint_data" where
  "mark_in_memory project issue_key data =
     (let projects = projects_of data;
          proj = proj_of projects project;
          keys = keys_of proj;
          keys' = (if issue_key \<notin> set keys then keys @ [issue_key] else keys)
      in Some (projects(project \<mapsto> proj\<lparr>downloaded_keys := Some keys'\<rparr>)))"

definition mark_downloaded :: "string \<Rightarrow> string \<Rightarrow> checkpoint_file \<Rightarrow> checkpoint_file" where
  "mark_downloaded project issue_key f =
     (let data = load_checkpoint f in
      save_checkpoint (mark_in_memory project issue_key data))"


definition set_in_memory :: "string \<Rightarrow> int \<Rightarrow> checkpoint_data \<Rightarrow> checkpoint_data" where
  "set_in_memory project start_at data =
     (let projects = projects_of data;
          proj = proj_of projects project
      in Some (projects(project \<mapsto> proj\<lparr>last_start := Some start_at\<rparr>)))"

definition set_last_start :: "string \<Rightarrow> int \<Rightarrow> checkpoint_file \<Rightarrow> checkpoint_file" where
  "set_last_start project start_at f =
     (let data = load_checkpoint f in
      save_checkpoint (set_in_memory project start_at data))"

section \<open>The scraping loop of \<^verbatim>\<open>main\<close> (cli.py)\<close>

text \<open>An issue is a dictionary; \<^verbatim>\<open>issue.get("key")\<close> may be absent.\<close>

record 'a issue =
  issue_key :: "string option"
  issue_body :: 'a







text \<open>The example of tests/test_resume_integration.py.\<close>

fun digit_string :: "nat \<Rightarrow> string" where
  "digit_string n =
     (if n < 10 then [char_of (48 + n)] else digit_string (n div 10) @ [char_of (48 + n mod 10)])"

definition make_issue :: "nat \<Rightarrow> unit issue" where
  "make_issue i = \<lparr>issue_key = Some (''TEST-'' @ digit_string i), issue_body = ()\<rparr>"

text \<open>
  A server that holds the issues TEST-1 .. TEST-30 in this order and answers every
  request with status 200, the records from \<^verbatim>\<open>startAt\<close> on (at most \<^verbatim>\<open>maxResults\<close>) and
  \<^verbatim>\<open>total = 30\<close>.
\<close>

definition test_server :: "unit issue api" where
  "test_server n p =
     \<lparr>client_get = (\<lambda>k. Response
        \<lparr>status_code = 200, retry_after = None,
         json_body = Some \<lparr>data_issues = map make_issue
             (filter (\<lambda>i. int i > startAt p \<and> int i \<le> startAt p + maxResults p) [1..<31]),
           data_total = Some (Some 30)\<rparr>\<rparr>),
      uniform = (\<lambda>k a b. a), date_delta = (\<lambda>k h. None)\<rparr>"


definition test_scraper :: scraper where
  "test_scraper = \<lparr>max_retries = 1, backoff_factor = 0\<rparr>"

text \<open>Pages that follow one another: each starts where the one before it ended.\<close>

fun chained :: "int \<Rightarrow> 'i page list \<Rightarrow> bool" where
  "chained c [] = True"
| "chained c (page # pages) =
     (fst (snd page) = c \<and> chained (c + int (length (fst page))) pages)"

section \<open>Text extraction and the short summary (transform.py)\<close>

text \<open>
  A Python \<^verbatim>\<open>str\<close> is a list of characters; a \<^typ>\<open>char\<close> stands for the code point of
  the same number, so the texts modelled are those of code points below 256.
  \<open>isspace\<close> is \<^verbatim>\<open>str.isspace\<close> on one character (the characters that \<^verbatim>\<open>str.strip()\<close>
  removes and that \<^verbatim>\<open>\s\<close> matches), \<open>is_linebreak\<close> the line boundaries of
  \<^verbatim>\<open>str.splitlines\<close>.
\<close>

definition isspace :: "char \<Rightarrow> bool" where
  "isspace c =
     (let n = (of_char c :: nat) in
      (9 \<le> n \<and> n \<le> 13) \<or> (28 \<le> n \<and> n \<le> 32) \<or> n = 133 \<or> n = 160)"

definition is_linebreak :: "char \<Rightarrow> bool" where
  "is_linebreak c =
     (let n = (of_char c :: nat) in
      (10 \<le> n \<and> n \<le> 13) \<or> (28 \<le> n \<and> n \<le> 30) \<or> n = 133)"

definition strip :: "string \<Rightarrow> string" where
  "strip s = rev (dropWhile isspace (rev (dropWhile isspace s)))"

text \<open>
  \<^verbatim>\<open>str.splitlines()\<close>: \<open>cur\<close> is the line being read. A carriage return followed by a
  line feed is one boundary; a text that ends with a boundary has no empty last line.
\<close>

fun splitlines_from :: "string \<Rightarrow> string \<Rightarrow> string list" where
  "splitlines_from cur [] = (if cur = [] then [] else [cur])"
| "splitlines_from cur [c] = (if is_linebreak c then [cur] else [cur @ [c]])"
| "splitlines_from cur (c # d # cs) =
     (if c = CHR 0x0D \<and> d = CHR 0x0A then cur # splitlines_from [] cs
      else if is_linebreak c then cur # splitlines_from [] (d # cs)
      else splitlines_from (cur @ [c]) (d # cs))"

definition splitlines :: "string \<Rightarrow> string list" where
  "splitlines s = splitlines_from [] s"

text \<open>\<^verbatim>\<open>s.rsplit(" ", 1)[0]\<close>: the part before the last space, all of \<open>s\<close> when it has none.\<close>

definition rsplit_head :: "string \<Rightarrow> string" where
  "rsplit_head s =
     (if CHR '' '' \<in> set s then rev (tl (dropWhile (\<lambda>c. c \<noteq> CHR '' '') (rev s))) else s)"

definition extract_short_summary :: "string \<Rightarrow> nat \<Rightarrow> string" where
  "extract_short_summary text max_chars =
     (if text = [] then []
      else
        (let paragraphs = map strip (filter (\<lambda>p. strip p \<noteq> []) (splitlines text)) in
         case paragraphs of
           first # _ \<Rightarrow>
             if length first \<le> max_chars then first
             else rsplit_head (take max_chars first) @ ''...''
         | [] \<Rightarrow> take max_chars text))"

text \<open>
  The specification's "first non-blank line": the first line that has a character
  other than white space, as it stands in the text.
\<close>

definition first_nonblank_line :: "string \<Rightarrow> string option" where
  "first_nonblank_line text = find (\<lambda>l. \<not> list_all isspace l) (splitlines text)"

text \<open>The 250 characters of fifty times \<^verbatim>\<open>"word "\<close>.\<close>

definition fifty_words :: string where
  "fifty_words = concat (replicate 50 ''word '')"

subsection \<open>Plain text of a description: \<^verbatim>\<open>html_to_text\<close> and \<^verbatim>\<open>_adf_to_text\<close>\<close>

text \<open>
  A value read from JSON, over the type \<open>'s\<close> of its strings. An object is the list of its
  members in order, with distinct keys. JSON numbers are integers here. \<open>json\<close> is the
  argument of \<^verbatim>\<open>html_to_text\<close> and the nodes that \<^verbatim>\<open>_walk\<close> visits.
\<close>

datatype 's json_value =
    JNull
  | JBool bool
  | JInt int
  | JStr 's
  | JArr "'s json_value list"
  | JObj "('s \<times> 's json_value) list"

type_synonym json = "string json_value"

text \<open>
  What \<^verbatim>\<open>html_to_text\<close> takes from outside the repository: \<open>get_text sep html\<close> is
  \<^verbatim>\<open>BeautifulSoup(html, "html.parser").get_text(separator=sep)\<close>, and \<open>py_str v\<close> is
  \<^verbatim>\<open>str(v)\<close> for a value that is not a string.
\<close>

record library =
  get_text :: "string \<Rightarrow> string \<Rightarrow> string"
  py_str :: "json \<Rightarrow> string"

text \<open>\<^verbatim>\<open>node_type in ('paragraph', 'heading', 'blockquote', 'codeBlock', 'panel')\<close>\<close>

definition is_block :: "json option \<Rightarrow> bool" where
  "is_block node_type =
     (case node_type of
        Some (JStr t) \<Rightarrow>
          t \<in> set [''paragraph'', ''heading'', ''blockquote'', ''codeBlock'', ''panel'']
      | _ \<Rightarrow> False)"

text \<open>
  \<^verbatim>\<open>_walk\<close>: the result is the text appended to \<^verbatim>\<open>parts\<close>, in order. \<open>walk_content\<close> is
  the branch \<^verbatim>\<open>if 'content' in n: for c in n['content']: _walk(c)\<close>, looking the member up
  in the list: iterating a list visits its elements, iterating a string its characters
  (each a string, appended as it is), iterating a dictionary its keys, and iterating
  \<^verbatim>\<open>None\<close>, a number or a Boolean raises \<^verbatim>\<open>TypeError\<close>.
\<close>

fun walk :: "(json \<Rightarrow> string) \<Rightarrow> json \<Rightarrow> py_exception + string"
  and walk_all :: "(json \<Rightarrow> string) \<Rightarrow> json list \<Rightarrow> py_exception + string"
  and walk_content :: "(json \<Rightarrow> string) \<Rightarrow> (string \<times> json) list \<Rightarrow> py_exception + string"
  where
  "walk str JNull = Inr []"
| "walk str (JStr s) = Inr s"
| "walk str (JArr cs) = walk_all str cs"
| "walk str (JObj n) =
     (case map_of n ''text'' of
        Some (JStr s) \<Rightarrow> Inr s
      | _ \<Rightarrow>
          (case walk_content str n of
             Inl e \<Rightarrow> Inl e
           | Inr t \<Rightarrow> Inr (t @ (if is_block (map_of n ''type'') then ''\<newline>'' else []))))"
| "walk str (JBool b) = Inr (str (JBool b))"
| "walk str (JInt i) = Inr (str (JInt i))"
| "walk_all str [] = Inr []"
| "walk_all str (c # cs) =
     (case walk str c of
        Inl e \<Rightarrow> Inl e
      | Inr t \<Rightarrow> (case walk_all str cs of Inl e \<Rightarrow> Inl e | Inr u \<Rightarrow> Inr (t @ u)))"
| "walk_content str [] = Inr []"
| "walk_content str ((k, v) # rest) =
     (if k = ''content'' then
        (case v of
           JArr cs \<Rightarrow> walk_all str cs
         | JStr s \<Rightarrow> Inr s
         | JObj m \<Rightarrow> Inr (concat (map fst m))
         | _ \<Rightarrow> Inl TypeError)
      else walk_content str rest)"

text \<open>
  \<^verbatim>\<open>re.sub(r"\s+", ' ', text)\<close>: every maximal run of white space becomes one space.
  \<open>in_run\<close> tells that the character before was white space.
\<close>

fun collapse_spaces_from :: "bool \<Rightarrow> string \<Rightarrow> string" where
  "collapse_spaces_from in_run [] = []"
| "collapse_spaces_from in_run (c # cs) =
     (if isspace c then (if in_run then [] else '' '') @ collapse_spaces_from True cs
      else c # collapse_spaces_from False cs)"

definition collapse_spaces :: "string \<Rightarrow> string" where
  "collapse_spaces s = collapse_spaces_from False s"

text \<open>
  \<^verbatim>\<open>re.sub(r"\n{2,}", "\n\n", text)\<close>: every maximal run of two or more line feeds becomes
  two line feeds. \<open>k\<close> is the number of line feeds read since the last other character.
\<close>

fun collapse_newlines_from :: "nat \<Rightarrow> string \<Rightarrow> string" where
  "collapse_newlines_from k [] = replicate (min k 2) (CHR 0x0A)"
| "collapse_newlines_from k (c # cs) =
     (if c = CHR 0x0A then collapse_newlines_from (Suc k) cs
      else replicate (min k 2) (CHR 0x0A) @ c # collapse_newlines_from 0 cs)"

definition collapse_newlines :: "string \<Rightarrow> string" where
  "collapse_newlines s = collapse_newlines_from 0 s"

definition adf_to_text :: "(json \<Rightarrow> string) \<Rightarrow> json \<Rightarrow> py_exception + string" where
  "adf_to_text str node =
     (case walk str node of
        Inl e \<Rightarrow> Inl e
      | Inr text \<Rightarrow> Inr (strip (collapse_spaces text)))"

text \<open>\<^verbatim>\<open>not html\<close>\<close>

definition falsy :: "json \<Rightarrow> bool" where
  "falsy v =
     (case v of
        JNull \<Rightarrow> True
      | JBool b \<Rightarrow> \<not> b
      | JInt i \<Rightarrow> i = 0
      | JStr s \<Rightarrow> s = []
      | JArr xs \<Rightarrow> xs = []
      | JObj m \<Rightarrow> m = [])"

text \<open>The last four lines of \<^verbatim>\<open>html_to_text\<close>, for the string \<open>html\<close>.\<close>

definition markup_to_text :: "library \<Rightarrow> string \<Rightarrow> string" where
  "markup_to_text lib html = collapse_newlines (strip (get_text lib ''\<newline>'' html))"

definition html_to_text :: "library \<Rightarrow> json \<Rightarrow> py_exception + string" where
  "html_to_text lib html =
     (if falsy html then Inr []
      else case html of
             JObj m \<Rightarrow> adf_to_text (py_str lib) html
           | JStr s \<Rightarrow> Inr (markup_to_text lib s)
           | _ \<Rightarrow> Inr (markup_to_text lib (py_str lib html)))"

text \<open>
  The two rules as the specification words them. \<open>replace_runs P r\<close> replaces every
  maximal run of characters that satisfy \<open>P\<close> by what \<open>r\<close> makes of the run, and keeps every
  other character. "Runs of two or more newlines collapse to exactly one blank line"
  (two line feeds; a single line feed stays); "every whitespace run collapses to a single
  space".
\<close>

function replace_runs :: "(char \<Rightarrow> bool) \<Rightarrow> (string \<Rightarrow> string) \<Rightarrow> string \<Rightarrow> string" where
  "replace_runs P r [] = []"
| "replace_runs P r (c # cs) =
     (if P c then r (c # takeWhile P cs) @ replace_runs P r (dropWhile P cs)
      else c # replace_runs P r cs)"
  by pat_completeness auto
termination
  by (relation "measure (\<lambda>(P, r, s). length s)") (auto simp: length_dropWhile_le less_Suc_eq_le)

definition spec_blank_lines :: "string \<Rightarrow> string" where
  "spec_blank_lines s =
     replace_runs (\<lambda>c. c = CHR 0x0A)
       (\<lambda>run. if 2 \<le> length run then ''\<newline>\<newline>'' else run) s"

definition spec_single_spaces :: "string \<Rightarrow> string" where
  "spec_single_spaces s = replace_runs isspace (\<lambda>run. '' '') s"

text \<open>
  Modelled from the spec: BeautifulSoup is not part of the repository. Section 4.4 has the
  markup "parsed as tag-delimited markup and converted to text by extracting text
  segments separated by newlines at element boundaries": the text nodes are the maximal
  non-empty stretches of characters outside the tags \<^verbatim>\<open><...>\<close>, and \<^verbatim>\<open>get_text\<close> joins
  them with the separator. The library stores a stretch made of the blanks space,
  line feed, tab, form feed and carriage return alone as one line feed when a line feed
  is in it, and as one space otherwise.

  This is the library's answer on plain markup: character data without \<^verbatim>\<open><\<close>, \<^verbatim>\<open>>\<close> and
  \<^verbatim>\<open>&\<close>, and tags \<^verbatim>\<open><name>\<close>, \<^verbatim>\<open><name/>\<close> and \<^verbatim>\<open></name>\<close> whose name is letters and digits,
  starts with a letter, and is not one of the elements that the parser or the library
  reads in another way. Character references, attributes, comments, declarations and an
  unfinished tag are outside it.
\<close>

definition is_letter :: "char \<Rightarrow> bool" where
  "is_letter c =
     (let n = (of_char c :: nat) in (65 \<le> n \<and> n \<le> 90) \<or> (97 \<le> n \<and> n \<le> 122))"

definition lower :: "char \<Rightarrow> char" where
  "lower c = (let n = (of_char c :: nat) in if 65 \<le> n \<and> n \<le> 90 then char_of (n + 32) else c)"

definition special_element :: "string \<Rightarrow> bool" where
  "special_element name =
     (map lower name \<in> set [''script'', ''style'', ''template'', ''pre'', ''textarea'',
        ''title'', ''listing'', ''plaintext'', ''xmp'', ''noscript'', ''noframes'', ''iframe'',
        ''noembed''])"

datatype scan = Data | Opened | Start_name string | End_name string | Closing

fun plain_from :: "scan \<Rightarrow> string \<Rightarrow> bool" where
  "plain_from Data [] = True"
| "plain_from Opened [] = False"
| "plain_from (Start_name n) [] = False"
| "plain_from (End_name n) [] = False"
| "plain_from Closing [] = False"
| "plain_from Data (c # cs) =
     (if c = CHR ''<'' then plain_from Opened cs
      else c \<noteq> CHR ''>'' \<and> c \<noteq> CHR ''&'' \<and> plain_from Data cs)"
| "plain_from Opened (c # cs) =
     (if c = CHR ''/'' then plain_from (End_name []) cs
      else is_letter c \<and> plain_from (Start_name [c]) cs)"
| "plain_from (Start_name n) (c # cs) =
     (if is_letter c \<or> is_ascii_digit c then plain_from (Start_name (n @ [c])) cs
      else if special_element n then False
      else if c = CHR ''>'' then plain_from Data cs
      else c = CHR ''/'' \<and> plain_from Closing cs)"
| "plain_from (End_name n) (c # cs) =
     (if is_letter c \<or> (n \<noteq> [] \<and> is_ascii_digit c) then plain_from (End_name (n @ [c])) cs
      else n \<noteq> [] \<and> c = CHR ''>'' \<and> plain_from Data cs)"
| "plain_from Closing (c # cs) = (c = CHR ''>'' \<and> plain_from Data cs)"

definition plain_markup :: "string \<Rightarrow> bool" where
  "plain_markup html = plain_from Data html"

definition is_blank :: "char \<Rightarrow> bool" where
  "is_blank c = ((of_char c :: nat) \<in> set [32, 10, 9, 12, 13])"

definition text_node :: "string \<Rightarrow> string" where
  "text_node cur =
     (if list_all is_blank cur then (if CHR 0x0A \<in> set cur then ''\<newline>'' else '' '')
      else cur)"

fun text_nodes :: "bool \<Rightarrow> string \<Rightarrow> string \<Rightarrow> string list" where
  "text_nodes in_tag cur [] = (if cur = [] then [] else [text_node cur])"
| "text_nodes in_tag cur (c # cs) =
     (if in_tag then text_nodes (c \<noteq> CHR ''>'') cur cs
      else if c = CHR ''<'' then (if cur = [] then [] else [text_node cur]) @ text_nodes True [] cs
      else text_nodes False (cur @ [c]) cs)"

fun join :: "string \<Rightarrow> string list \<Rightarrow> string" where
  "join sep [] = []"
| "join sep [x] = x"
| "join sep (x # y # ys) = x @ sep @ join sep (y # ys)"

definition soup_get_text :: "string \<Rightarrow> string \<Rightarrow> string" where
  "soup_get_text sep html = join sep (text_nodes False [] html)"

text \<open>
  A library that answers as above on plain markup, and as \<open>lib\<close> does everywhere else.
\<close>

definition with_soup :: "library \<Rightarrow> library" where
  "with_soup lib =
     \<lparr>get_text = (\<lambda>sep html. if plain_markup html then soup_get_text sep html
                              else get_text lib sep html),
      py_str = py_str lib\<rparr>"

text \<open>
  The closed examples below need one library. They are at plain markup and at trees whose
  leaves are strings, where neither field of this one is consulted.
\<close>

definition no_library :: library where
  "no_library = \<lparr>get_text = (\<lambda>sep html. []), py_str = (\<lambda>v. [])\<rparr>"

text \<open>The document tree of the specification's example.\<close>

definition hi_there :: json where
  "hi_there =
     JObj [(''type'', JStr ''doc''),
           (''content'', JArr
              [JObj [(''type'', JStr ''paragraph''),
                     (''content'', JArr
                        [JObj [(''type'', JStr ''text''), (''text'', JStr ''Hi there'')]])]])]"

section \<open>The checkpoint store on any file (checkpoint.py), and the run of \<^verbatim>\<open>main\<close> with it (cli.py)\<close>

text \<open>
  The sections above have the store on documents of the shape that the store itself
  writes, with writes that succeed. This section has the same functions of checkpoint.py
  on any file: \<^verbatim>\<open>json.load\<close> returns whatever JSON value the file holds, the dictionary
  methods raise on a value that is not a dictionary, and \<^verbatim>\<open>write_text\<close> can fail. The
  functions keep their names, with \<open>_any\<close> added.

  A Python \<^verbatim>\<open>str\<close> is here a list of code points, so that it can hold a lone surrogate
  (U+D800 to U+DFFF): JSON allows the escape \<^verbatim>\<open>\ud800\<close> in a string, and UTF-8 cannot encode
  the character. \<open>lit\<close> is the text of a string literal of the source.
\<close>

type_synonym codepoints = "int list"

definition lit :: "string \<Rightarrow> codepoints" where
  "lit s = map of_char s"

definition encodable :: "codepoints \<Rightarrow> bool" where
  "encodable t = list_all (\<lambda>c. c < 0xD800 \<or> 0xDFFF < c) t"

fun encodable_value :: "codepoints json_value \<Rightarrow> bool"
  and encodable_values :: "codepoints json_value list \<Rightarrow> bool"
  and encodable_members :: "(codepoints \<times> codepoints json_value) list \<Rightarrow> bool"
  where
  "encodable_value JNull = True"
| "encodable_value (JBool b) = True"
| "encodable_value (JInt i) = True"
| "encodable_value (JStr t) = encodable t"
| "encodable_value (JArr vs) = encodable_values vs"
| "encodable_value (JObj m) = encodable_members m"
| "encodable_values [] = True"
| "encodable_values (v # vs) = (encodable_value v \<and> encodable_values vs)"
| "encodable_members [] = True"
| "encodable_members ((k, v) # m) = (encodable k \<and> encodable_value v \<and> encodable_members m)"

text \<open>
  The file \<^verbatim>\<open>checkpoint.json\<close>: it does not exist; or it exists and \<^verbatim>\<open>open\<close> or \<^verbatim>\<open>json.load\<close>
  raises on it (an empty file is one of these); or it holds the text of a JSON value.
\<close>

datatype disk_file = Absent | Garbled | Holds "codepoints json_value"

text \<open>
  \<^verbatim>\<open>load_checkpoint\<close>: the default \<^verbatim>\<open>{"projects": {}}\<close> for a file that does not exist or
  that cannot be read and parsed, and otherwise the value that \<^verbatim>\<open>json.load\<close> returns,
  whatever it is.
\<close>

definition default_document :: "codepoints json_value" where
  "default_document = JObj [(lit ''projects'', JObj [])]"

definition load_any :: "disk_file \<Rightarrow> codepoints json_value" where
  "load_any f =
     (case f of
        Absent \<Rightarrow> default_document
      | Garbled \<Rightarrow> default_document
      | Holds v \<Rightarrow> v)"

text \<open>
  \<^verbatim>\<open>save_checkpoint\<close>: \<^verbatim>\<open>json.dumps(data, ensure_ascii=False)\<close> keeps every character as it
  is, and \<^verbatim>\<open>write_text\<close> opens the file for writing, which empties it, before it encodes
  the text. When the text has a lone surrogate the encoding raises \<^verbatim>\<open>UnicodeEncodeError\<close>
  and the file stays empty. The result is the exception raised, if any, and the file.
  (Failures of the operating system, such as a full disk, are not modelled.)
\<close>

definition save_any :: "codepoints json_value \<Rightarrow> py_exception option \<times> disk_file" where
  "save_any data =
     (if encodable_value data then (None, Holds data) else (Some UnicodeEncodeError, Garbled))"

text \<open>
  \<^verbatim>\<open>d.get(k, default)\<close>, an \<^verbatim>\<open>AttributeError\<close> when \<open>d\<close> is not a dictionary, and the line
  \<^verbatim>\<open>proj = data.get("projects", {}).get(project, {})\<close> of the two readers. The name of a
  project is text of code points below 256, as in the requests.
\<close>

definition dict_get ::
  "codepoints json_value \<Rightarrow> codepoints \<Rightarrow> codepoints json_value \<Rightarrow> py_exception + codepoints json_value" where
  "dict_get d k default_value =
     (case d of
        JObj m \<Rightarrow> Inr (case map_of m k of Some v \<Rightarrow> v | None \<Rightarrow> default_value)
      | _ \<Rightarrow> Inl AttributeError)"

definition proj_any :: "string \<Rightarrow> codepoints json_value \<Rightarrow> py_exception + codepoints json_value" where
  "proj_any project data =
     (case dict_get data (lit ''projects'') (JObj []) of
        Inl exn \<Rightarrow> Inl exn
      | Inr projects \<Rightarrow> dict_get projects (lit project) (JObj []))"

text \<open>
  \<^verbatim>\<open>issue_key in keys\<close> for a key that is a \<^verbatim>\<open>str\<close>: an element of a list, a key of a
  dictionary, a substring of a string; \<^verbatim>\<open>TypeError\<close> on \<^verbatim>\<open>None\<close>, a number or a Boolean.
\<close>

definition py_in :: "codepoints \<Rightarrow> codepoints json_value \<Rightarrow> py_exception + bool" where
  "py_in k keys =
     (case keys of
        JArr xs \<Rightarrow> Inr (JStr k \<in> set xs)
      | JObj m \<Rightarrow> Inr (k \<in> set (map fst m))
      | JStr t \<Rightarrow> Inr (sublist k t)
      | _ \<Rightarrow> Inl TypeError)"

definition is_downloaded_any :: "string \<Rightarrow> codepoints \<Rightarrow> disk_file \<Rightarrow> py_exception + bool" where
  "is_downloaded_any project key f =
     (case proj_any project (load_any f) of
        Inl exn \<Rightarrow> Inl exn
      | Inr proj \<Rightarrow>
          (case dict_get proj (lit ''downloaded_keys'') (JArr []) of
             Inl exn \<Rightarrow> Inl exn
           | Inr keys \<Rightarrow> py_in key keys))"

text \<open>
  \<^verbatim>\<open>int(v)\<close>: a number is itself, a Boolean 0 or 1, \<^verbatim>\<open>None\<close>, a list and a dictionary raise
  \<^verbatim>\<open>TypeError\<close>. For a \<^verbatim>\<open>str\<close> the value, or \<open>None\<close> for \<^verbatim>\<open>ValueError\<close>, is the parameter
  \<open>int_str\<close>.
\<close>

definition py_int_value :: "(codepoints \<Rightarrow> int option) \<Rightarrow> codepoints json_value \<Rightarrow> py_exception + int" where
  "py_int_value int_str v =
     (case v of
        JInt n \<Rightarrow> Inr n
      | JBool b \<Rightarrow> Inr (if b then 1 else 0)
      | JStr t \<Rightarrow> (case int_str t of Some n \<Rightarrow> Inr n | None \<Rightarrow> Inl ValueError)
      | _ \<Rightarrow> Inl TypeError)"

definition get_last_start_any ::
  "(codepoints \<Rightarrow> int option) \<Rightarrow> string \<Rightarrow> disk_file \<Rightarrow> py_exception + int" where
  "get_last_start_any int_str project f =
     (case proj_any project (load_any f) of
        Inl exn \<Rightarrow> Inl exn
      | Inr proj \<Rightarrow>
          (case dict_get proj (lit ''last_start'') (JInt 0) of
             Inl exn \<Rightarrow> Inl exn
           | Inr v \<Rightarrow> py_int_value int_str v))"

text \<open>
  The first two lines of both mutating functions,
  \<^verbatim>\<open>projects = data.setdefault("projects", {})\<close> and
  \<^verbatim>\<open>proj = projects.setdefault(project, {})\<close>: the members of \<^verbatim>\<open>data\<close>, the members of
  \<^verbatim>\<open>projects\<close>, and \<^verbatim>\<open>proj\<close>; \<^verbatim>\<open>AttributeError\<close> when \<^verbatim>\<open>data\<close> or \<^verbatim>\<open>projects\<close> is not a
  dictionary. \<open>close_project\<close> is \<^verbatim>\<open>data\<close> once the entry of the project has the members
  \<open>e\<close>: a member that was there keeps its place, a new one comes last.
\<close>

definition open_project ::
  "string \<Rightarrow> codepoints json_value \<Rightarrow>
   py_exception + (codepoints \<times> codepoints json_value) list \<times> (codepoints \<times> codepoints json_value) list \<times> codepoints json_value"
  where
  "open_project project data =
     (case data of
        JObj m \<Rightarrow>
          (case (case map_of m (lit ''projects'') of Some v \<Rightarrow> v | None \<Rightarrow> JObj []) of
             JObj ps \<Rightarrow>
               Inr (m, ps, (case map_of ps (lit project) of Some v \<Rightarrow> v | None \<Rightarrow> JObj []))
           | _ \<Rightarrow> Inl AttributeError)
      | _ \<Rightarrow> Inl AttributeError)"

definition close_project ::
  "string \<Rightarrow> (codepoints \<times> codepoints json_value) list \<Rightarrow> (codepoints \<times> codepoints json_value) list \<Rightarrow>
   (codepoints \<times> codepoints json_value) list \<Rightarrow> codepoints json_value" where
  "close_project project m ps e =
     JObj (AList.update (lit ''projects'') (JObj (AList.update (lit project) (JObj e) ps)) m)"

text \<open>
  \<^verbatim>\<open>mark_downloaded\<close>: \<^verbatim>\<open>proj.setdefault("downloaded_keys", [])\<close> raises \<^verbatim>\<open>AttributeError\<close>
  when \<^verbatim>\<open>proj\<close> is not a dictionary, and so does \<^verbatim>\<open>keys.append\<close> when \<^verbatim>\<open>keys\<close> is not a list.
  An exception raised before \<^verbatim>\<open>save_checkpoint\<close> leaves the file as it was.
\<close>

definition mark_downloaded_any ::
  "string \<Rightarrow> codepoints \<Rightarrow> disk_file \<Rightarrow> py_exception option \<times> disk_file" where
  "mark_downloaded_any project key f =
     (case open_project project (load_any f) of
        Inl exn \<Rightarrow> (Some exn, f)
      | Inr (m, ps, proj) \<Rightarrow>
          (case proj of
             JObj e \<Rightarrow>
               (let keys = (case map_of e (lit ''downloaded_keys'') of
                              Some v \<Rightarrow> v | None \<Rightarrow> JArr [])
                in case py_in key keys of
                     Inl exn \<Rightarrow> (Some exn, f)
                   | Inr present \<Rightarrow>
                       if present
                       then save_any
                              (close_project project m ps
                                 (AList.update (lit ''downloaded_keys'') keys e))
                       else
                         (case keys of
                            JArr xs \<Rightarrow>
                              save_any
                                (close_project project m ps
                                   (AList.update (lit ''downloaded_keys'')
                                      (JArr (xs @ [JStr key])) e))
                          | _ \<Rightarrow> (Some AttributeError, f)))
           | _ \<Rightarrow> (Some AttributeError, f)))"

text \<open>
  \<^verbatim>\<open>set_last_start\<close>: the assignment \<^verbatim>\<open>proj["last_start"] = int(start_at)\<close> raises \<^verbatim>\<open>TypeError\<close>
  when \<^verbatim>\<open>proj\<close> is not a dictionary.
\<close>

definition set_last_start_any ::
  "string \<Rightarrow> int \<Rightarrow> disk_file \<Rightarrow> py_exception option \<times> disk_file" where
  "set_last_start_any project start_at f =
     (case open_project project (load_any f) of
        Inl exn \<Rightarrow> (Some exn, f)
      | Inr (m, ps, proj) \<Rightarrow>
          (case proj of
             JObj e \<Rightarrow>
               save_any (close_project project m ps
                           (AList.update (lit ''last_start'') (JInt start_at) e))
           | _ \<Rightarrow> (Some TypeError, f)))"

text \<open>
  The loop of \<^verbatim>\<open>main\<close> for one project (cli.py, lines 46-73), as far as the checkpoint
  file goes. What the loop reads of an issue is \<^verbatim>\<open>issue.get("key")\<close>, here a \<^verbatim>\<open>str\<close> or
  \<open>None\<close> (absent or null). \<^verbatim>\<open>save_raw_issue\<close> catches the failures of its own write and does
  not touch the checkpoint. The body of \<^verbatim>\<open>for issue in issues\<close>: the exception that leaves
  it, if any, and the file.
\<close>

definition process_issue_any ::
  "string \<Rightarrow> disk_file \<Rightarrow> codepoints option \<Rightarrow> py_exception option \<times> disk_file" where
  "process_issue_any project f key =
     (case key of
        None \<Rightarrow> (None, f)
      | Some k \<Rightarrow>
          if k = [] then (None, f)
          else
            (case is_downloaded_any project k f of
               Inl exn \<Rightarrow> (Some exn, f)
             | Inr downloaded \<Rightarrow>
                 if downloaded then (None, f) else mark_downloaded_any project k f))"

text \<open>
  The files that a run leaves one after the other, and the exception that ended it, if
  any: an exception of the loop over the issues leaves both loops and is caught at line
  72, which ends the project; an exception of \<^verbatim>\<open>set_last_start\<close> is caught at line 70 and
  the run goes on with the next page.
\<close>

fun issues_any ::
  "string \<Rightarrow> disk_file \<Rightarrow> codepoints option list \<Rightarrow> disk_file list \<times> py_exception option" where
  "issues_any project f [] = ([], None)"
| "issues_any project f (key # rest) =
     (case process_issue_any project f key of
        (Some exn, f') \<Rightarrow> ([f'], Some exn)
      | (None, f') \<Rightarrow>
          (case issues_any project f' rest of (fs, ended) \<Rightarrow> (f' # fs, ended)))"

definition page_any ::
  "string \<Rightarrow> disk_file \<Rightarrow> codepoints option page \<Rightarrow> disk_file list \<times> py_exception option" where
  "page_any project f page =
     (case page of (issues, page_start, tot) \<Rightarrow>
        (case issues_any project f issues of
           (fs, Some exn) \<Rightarrow> (fs, Some exn)
         | (fs, None) \<Rightarrow>
             (fs @ [snd (set_last_start_any project (page_start + int (length issues))
                           (last (f # fs)))],
              None)))"

fun pages_any ::
  "string \<Rightarrow> disk_file \<Rightarrow> codepoints option page list \<Rightarrow> disk_file list \<times> py_exception option" where
  "pages_any project f [] = ([], None)"
| "pages_any project f (page # rest) =
     (case page_any project f page of
        (fs, Some exn) \<Rightarrow> (fs, Some exn)
      | (fs, None) \<Rightarrow>
          (case pages_any project (last (f # fs)) rest of (gs, ended) \<Rightarrow> (fs @ gs, ended)))"

text \<open>Lines 48-54: the offset to resume from, 0 when \<^verbatim>\<open>get_last_start\<close> raises.\<close>

definition start_any :: "(codepoints \<Rightarrow> int option) \<Rightarrow> string \<Rightarrow> disk_file \<Rightarrow> int" where
  "start_any int_str project f =
     (case get_last_start_any int_str project f of Inr v \<Rightarrow> v | Inl exn \<Rightarrow> 0)"

definition scrape_any ::
  "(codepoints \<Rightarrow> int option) \<Rightarrow> nat \<Rightarrow> scraper \<Rightarrow> codepoints option api \<Rightarrow> string \<Rightarrow> int \<Rightarrow> int option \<Rightarrow>
   disk_file \<Rightarrow> disk_file list \<times> py_exception option" where
  "scrape_any int_str fuel s api project page_size max_issues f =
     pages_any project f
       (fst (fetch_issue_pages_for_project fuel s api project page_size max_issues
               (start_any int_str project f)))"

text \<open>
  The order on files of the invariant, for collection \<open>q\<close>: when \<^verbatim>\<open>get_last_start\<close> returned
  an offset on the first file, it returns one on the second that is not smaller, and
  every key for which \<^verbatim>\<open>is_downloaded\<close> returned \<^verbatim>\<open>True\<close> on the first has it return \<^verbatim>\<open>True\<close> on
  the second.
\<close>

definition progress_any :: "(codepoints \<Rightarrow> int option) \<Rightarrow> string \<Rightarrow> disk_file \<Rightarrow> disk_file \<Rightarrow> bool" where
  "progress_any int_str q a b =
     ((\<forall>v. get_last_start_any int_str q a = Inr v \<longrightarrow>
           (\<exists>v'. get_last_start_any int_str q b = Inr v' \<and> v \<le> v')) \<and>
      (\<forall>k. is_downloaded_any q k a = Inr True \<longrightarrow> is_downloaded_any q k b = Inr True))"

definition encodable_file :: "disk_file \<Rightarrow> bool" where
  "encodable_file f = (case f of Holds v \<Rightarrow> encodable_value v | _ \<Rightarrow> True)"

text \<open>
  Example files and servers. \<open>stored_ten\<close> is the file after ten records of project P, of
  which the key A is stored. \<open>key_server keys\<close> holds the records with these keys, in this
  order, and answers every request with status 200, the records from \<^verbatim>\<open>startAt\<close> on (at
  most \<^verbatim>\<open>maxResults\<close>) and the number of records as \<^verbatim>\<open>total\<close>.
\<close>

definition stored_ten :: disk_file where
  "stored_ten =
     Holds (JObj [(lit ''projects'',
       JObj [(lit ''P'',
         JObj [(lit ''downloaded_keys'', JArr [JStr (lit ''A'')]),
               (lit ''last_start'', JInt 10)])])])"

definition key_server :: "codepoints option list \<Rightarrow> codepoints option api" where
  "key_server keys n p =
     \<lparr>client_get = (\<lambda>k. Response
        \<lparr>status_code = 200, retry_after = None,
         json_body = Some \<lparr>data_issues = take (nat (maxResults p)) (drop (nat (startAt p)) keys),
           data_total = Some (Some (int (length keys)))\<rparr>\<rparr>),
      uniform = (\<lambda>k a b. a), date_delta = (\<lambda>k h. None)\<rparr>"

text \<open>
  Thirteen records: ten without a key, then the keys B, A and C; and eleven records, the
  last with the key of the one character U+D800, a lone surrogate.
\<close>

definition thirteen_records :: "codepoints option list" where
  "thirteen_records = replicate 10 None @ [Some (lit ''B''), Some (lit ''A''), Some (lit ''C'')]"

definition surrogate_record :: "codepoints option list" where
  "surrogate_record = replicate 10 None @ [Some [0xD800]]"

section \<open>Concurrent callers of the checkpoint store (checkpoint.py)\<close>

text \<open>
  The two mutating calls, and where a thread stands inside one. The source of
  \<^verbatim>\<open>mark_downloaded\<close> and \<^verbatim>\<open>set_last_start\<close> runs \<^verbatim>\<open>load_checkpoint\<close>, changes the dictionary in
  memory and calls \<^verbatim>\<open>save_checkpoint\<close>, whose body is \<^verbatim>\<open>with _LOCK: p.write_text(...)\<close>:
  the lock is taken after the read and the change, and released after the write.
\<close>

datatype store_op = Mark_downloaded string string | Set_last_start string int

datatype pc =
    Called store_op
  | Read_done store_op checkpoint_data
  | Waiting checkpoint_data
  | Holding checkpoint_data
  | Written
  | Returned

text \<open>
  The shared state: the file, the holder of \<^verbatim>\<open>_LOCK\<close> and the place of every thread.
\<close>

record system =
  store_file :: checkpoint_file
  lock :: "nat option"
  pcs :: "nat \<Rightarrow> pc"

definition in_memory :: "store_op \<Rightarrow> checkpoint_data \<Rightarrow> checkpoint_data" where
  "in_memory op data =
     (case op of
        Mark_downloaded project key \<Rightarrow> mark_in_memory project key data
      | Set_last_start project start_at \<Rightarrow> set_in_memory project start_at data)"

definition sequential :: "store_op \<Rightarrow> checkpoint_file \<Rightarrow> checkpoint_file" where
  "sequential op f =
     (case op of
        Mark_downloaded project key \<Rightarrow> mark_downloaded project key f
      | Set_last_start project start_at \<Rightarrow> set_last_start project start_at f)"

text \<open>
  One step of thread \<open>t\<close>: read the file; change the dictionary; take the lock (possible
  only when it is free); write the file; release the lock. \<open>None\<close>: the thread cannot
  move (it waits for the lock, or it has returned).
\<close>

definition step :: "nat \<Rightarrow> system \<Rightarrow> system option" where
  "step t s =
     (case pcs s t of
        Called op \<Rightarrow> Some (s\<lparr>pcs := (pcs s)(t := Read_done op (load_checkpoint (store_file s)))\<rparr>)
      | Read_done op data \<Rightarrow> Some (s\<lparr>pcs := (pcs s)(t := Waiting (in_memory op data))\<rparr>)
      | Waiting data \<Rightarrow>
          (case lock s of
             None \<Rightarrow> Some (s\<lparr>lock := Some t, pcs := (pcs s)(t := Holding data)\<rparr>)
           | Some holder \<Rightarrow> None)
      | Holding data \<Rightarrow> Some (s\<lparr>store_file := save_checkpoint data, pcs := (pcs s)(t := Written)\<rparr>)
      | Written \<Rightarrow> Some (s\<lparr>lock := None, pcs := (pcs s)(t := Returned)\<rparr>)
      | Returned \<Rightarrow> None)"

text \<open>A schedule names the thread that moves next; it is run as far as every step is possible.\<close>

fun run :: "nat list \<Rightarrow> system \<Rightarrow> system option" where
  "run [] s = Some s"
| "run (t # ts) s = (case step t s of None \<Rightarrow> None | Some s' \<Rightarrow> run ts s')"

definition holds_lock :: "pc \<Rightarrow> bool" where
  "holds_lock p = (case p of Holding data \<Rightarrow> True | Written \<Rightarrow> True | _ \<Rightarrow> False)"

definition has_read :: "pc \<Rightarrow> bool" where
  "has_read p = (case p of Read_done op data \<Rightarrow> True | _ \<Rightarrow> False)"

definition has_returned :: "pc \<Rightarrow> bool" where
  "has_returned p = (case p of Returned \<Rightarrow> True | _ \<Rightarrow> False)"

text \<open>
  Two threads on an absent file: thread 0 calls \<^verbatim>\<open>mark_downloaded("P", "K-1")\<close>, thread 1
  calls \<^verbatim>\<open>mark_downloaded("P", "K-2")\<close>.
\<close>

definition two_callers :: system where
  "two_callers =
     \<lparr>store_file = Missing, lock = None,
      pcs = (\<lambda>t. if t = 0 then Called (Mark_downloaded ''P'' ''K-1'')
                 else if t = 1 then Called (Mark_downloaded ''P'' ''K-2'')
                 else Returned)\<rparr>"

text \<open>The threads inside the \<^verbatim>\<open>with _LOCK\<close> block are exactly the holder of the lock.\<close>

definition lock_inv :: "system \<Rightarrow> bool" where
  "lock_inv s = (\<forall>t. holds_lock (pcs s t) \<longleftrightarrow> lock s = Some t)"

section \<open>Proofs\<close>

subsection \<open>The retry loop\<close>

declare request_loop.simps [simp del]

lemma request_loop_turn:
  "request_loop s e n sl =
     (case turn s e (Suc n) of
        Returns j \<Rightarrow> (Inr j, Suc n, sl)
      | Raises exn \<Rightarrow> (Inl exn, Suc n, sl)
      | Sleeps w err \<Rightarrow>
          if max_retries s \<le> int (Suc n) then (Inl (JiraClientError err), Suc n, sl @ [w])
          else request_loop s e (Suc n) (sl @ [w]))"
  by (subst request_loop.simps)
    (simp add: turn_def Let_def split: outcome.splits option.splits sum.splits prod.splits)

lemma turn_Sleeps_retryable:
  "turn s e k = Sleeps w err \<Longrightarrow> retryable (client_get e k)"
  by (auto simp: turn_def retryable_def wait_time_def Let_def
      split: outcome.splits option.splits sum.splits prod.splits if_splits)

lemma turn_final:
  assumes "client_get e k = Response r"
    and "status_code r \<noteq> 429" and "\<not> (500 \<le> status_code r \<and> status_code r < 600)"
  shows "turn s e k =
     (if status_code r = 200
      then (case json_body r of Some j \<Rightarrow> Returns j
            | None \<Rightarrow> Raises (JiraClientError Invalid_JSON_response))
      else Raises (JiraClientError (HTTP_status (status_code r))))"
  using assms by (auto simp: turn_def wait_time_def)

lemma turn_backoff:
  assumes "is_5xx (client_get e k) \<or> client_get e k = RequestError"
    and "0 \<le> backoff s k + jitter e k"
  shows "turn s e k =
     Sleeps (backoff s k + jitter e k)
       (if is_5xx (client_get e k) then Max_retries_exceeded else Network_error)"
proof (cases "client_get e k")
  case RequestError
  with assms(2) show ?thesis
    by (simp add: turn_def is_5xx_def Let_def not_less[symmetric])
next
  case (Response r)
  with assms(1) have st: "500 \<le> status_code r \<and> status_code r < 600"
    by (simp add: is_5xx_def)
  then have "wait_time s e k r = Inr (backoff s k, False)"
    by (simp add: wait_time_def)
  with Response st assms(2) show ?thesis
    by (simp add: turn_def is_5xx_def Let_def not_less[symmetric])
qed

text \<open>
  What a run of the loop looks like: every attempt before the last was followed by a
  sleep that returned and was not the last one allowed; the last attempt either ended
  the call by itself, or it was the last one allowed.
\<close>

lemma request_loop_trace:
  "request_loop s e n sl0 = (res, a, sl) \<Longrightarrow>
     n < a \<and>
     (\<forall>k. n < k \<and> k < a \<longrightarrow> (\<exists>w err. turn s e k = Sleeps w err) \<and> int k < max_retries s) \<and>
     (case turn s e a of
        Returns j \<Rightarrow> res = Inr j \<and> sl = sl0 @ map (slept s e) [Suc n..<a]
      | Raises exn \<Rightarrow> res = Inl exn \<and> sl = sl0 @ map (slept s e) [Suc n..<a]
      | Sleeps w err \<Rightarrow> res = Inl (JiraClientError err) \<and> max_retries s \<le> int a \<and>
          sl = sl0 @ map (slept s e) [Suc n..<Suc a])"
proof (induction "nat (max_retries s - int n)" arbitrary: n sl0 rule: less_induct)
  case less
  show ?case
  proof (cases "turn s e (Suc n)")
    case (Returns j)
    with less.prems show ?thesis
      by (auto simp: request_loop_turn[of s e n] less_Suc_eq)
  next
    case (Raises exn)
    with less.prems show ?thesis
      by (auto simp: request_loop_turn[of s e n] less_Suc_eq)
  next
    case (Sleeps w err)
    then have sw: "slept s e (Suc n) = w" by (simp add: slept_def)
    show ?thesis
    proof (cases "max_retries s \<le> int (Suc n)")
      case True
      with Sleeps sw less.prems show ?thesis
        by (auto simp: request_loop_turn[of s e n] less_Suc_eq)
    next
      case False
      with Sleeps less.prems have
        *: "request_loop s e (Suc n) (sl0 @ [w]) = (res, a, sl)"
        by (simp add: request_loop_turn[of s e n])
      have "nat (max_retries s - int (Suc n)) < nat (max_retries s - int n)"
        using False by simp
      from less.hyps[OF this *] have ih1: "Suc n < a"
        and ih2: "\<forall>k. Suc n < k \<and> k < a \<longrightarrow>
          (\<exists>w err. turn s e k = Sleeps w err) \<and> int k < max_retries s"
        and ih3: "case turn s e a of
            Returns j \<Rightarrow> res = Inr j \<and> sl = (sl0 @ [w]) @ map (slept s e) [Suc (Suc n)..<a]
          | Raises exn \<Rightarrow> res = Inl exn \<and> sl = (sl0 @ [w]) @ map (slept s e) [Suc (Suc n)..<a]
          | Sleeps w' err \<Rightarrow> res = Inl (JiraClientError err) \<and> max_retries s \<le> int a \<and>
              sl = (sl0 @ [w]) @ map (slept s e) [Suc (Suc n)..<Suc a]"
        by blast+
      have c1: "n < a" using ih1 by simp
      have c2: "\<forall>k. n < k \<and> k < a \<longrightarrow>
          (\<exists>w err. turn s e k = Sleeps w err) \<and> int k < max_retries s"
      proof (intro allI impI)
        fix k assume "n < k \<and> k < a"
        then have "k = Suc n \<or> (Suc n < k \<and> k < a)" by auto
        then show "(\<exists>w err. turn s e k = Sleeps w err) \<and> int k < max_retries s"
          using Sleeps False ih2 by auto
      qed
      have u1: "[Suc n..<Suc a] = Suc n # [Suc (Suc n)..<Suc a]"
        using ih1 by (simp add: upt_conv_Cons)
      have u2: "[Suc n..<a] = Suc n # [Suc (Suc n)..<a]"
        using ih1 by (simp add: upt_conv_Cons)
      have c3: "case turn s e a of
            Returns j \<Rightarrow> res = Inr j \<and> sl = sl0 @ map (slept s e) [Suc n..<a]
          | Raises exn \<Rightarrow> res = Inl exn \<and> sl = sl0 @ map (slept s e) [Suc n..<a]
          | Sleeps w' err \<Rightarrow> res = Inl (JiraClientError err) \<and> max_retries s \<le> int a \<and>
              sl = sl0 @ map (slept s e) [Suc n..<Suc a]"
        using ih3 sw unfolding u1 u2 by (simp split: turn.splits)
      from c1 c2 c3 show ?thesis by blast
    qed
  qed
qed

lemma backoff_nonneg: "0 \<le> backoff_factor s \<Longrightarrow> 0 \<le> backoff s k"
  by (simp add: backoff_def)

text \<open>
  C1, as the code has it. With \<open>max_retries = N \<ge> 1\<close> and a backoff factor that is not
  negative (and \<^verbatim>\<open>random.uniform(0, b)\<close> not below 0), when each of the attempts 1..N ends
  in a 5xx response or in a network fault, a call makes exactly N attempts and then
  raises \<^verbatim>\<open>JiraClientError\<close>: "Max retries exceeded" when the N-th outcome was a 5xx,
  "Network error" when it was a fault.
\<close>

theorem request_retries_exhausted:
  assumes "max_retries s = int N" and "1 \<le> N" and "0 \<le> backoff_factor s"
    and "\<forall>k. 1 \<le> k \<and> k \<le> N \<longrightarrow> 0 \<le> uniform e k 0 (1 + of_nat k / 10)"
    and "\<forall>k. 1 \<le> k \<and> k \<le> N \<longrightarrow> is_5xx (client_get e k) \<or> client_get e k = RequestError"
  shows "attempts_of (request s e) = N \<and>
         result_of (request s e) =
           Inl (JiraClientError
                  (if is_5xx (client_get e N) then Max_retries_exceeded else Network_error))"
proof -
  obtain res a sl where run: "request_loop s e 0 [] = (res, a, sl)"
    by (cases "request_loop s e 0 []") auto
  have sleeps: "turn s e k =
      Sleeps (backoff s k + jitter e k)
        (if is_5xx (client_get e k) then Max_retries_exceeded else Network_error)"
    if "1 \<le> k" "k \<le> N" for k
  proof (rule turn_backoff)
    show "is_5xx (client_get e k) \<or> client_get e k = RequestError"
      using assms(5) that by simp
    have "0 \<le> jitter e k" using assms(4) that by (simp add: jitter_def)
    moreover have "0 \<le> backoff s k" using assms(3) by (rule backoff_nonneg)
    ultimately show "0 \<le> backoff s k + jitter e k" by simp
  qed
  from request_loop_trace[OF run] have pos: "0 < a"
    and before: "\<forall>k. 0 < k \<and> k < a \<longrightarrow> int k < max_retries s"
    and last: "case turn s e a of
        Returns j \<Rightarrow> res = Inr j \<and> sl = [] @ map (slept s e) [Suc 0..<a]
      | Raises exn \<Rightarrow> res = Inl exn \<and> sl = [] @ map (slept s e) [Suc 0..<a]
      | Sleeps w err \<Rightarrow> res = Inl (JiraClientError err) \<and> max_retries s \<le> int a \<and>
          sl = [] @ map (slept s e) [Suc 0..<Suc a]"
    by blast+
  have "\<not> N < a"
  proof
    assume "N < a"
    with before assms(2) have "int N < max_retries s" by auto
    with assms(1) show False by simp
  qed
  moreover have "\<not> a < N"
  proof
    assume "a < N"
    with pos have "1 \<le> a" and "a \<le> N" by simp_all
    then have "turn s e a =
      Sleeps (backoff s a + jitter e a)
        (if is_5xx (client_get e a) then Max_retries_exceeded else Network_error)"
      by (rule sleeps)
    with last have "max_retries s \<le> int a" by simp
    with assms(1) \<open>a < N\<close> show False by simp
  qed
  ultimately have aN: "a = N" by simp
  with sleeps[of N] assms(2) last
  have res: "res = Inl (JiraClientError
      (if is_5xx (client_get e N) then Max_retries_exceeded else Network_error))"
    by simp
  with run aN show ?thesis
    by (simp add: request_def attempts_of_def result_of_def)
qed

theorem request_retries_exhausted_witness:
  "attempts_of (request \<lparr>max_retries = 2, backoff_factor = 0\<rparr> env_500) = 2 \<and>
   result_of (request \<lparr>max_retries = 2, backoff_factor = 0\<rparr> env_500)
     = Inl (JiraClientError Max_retries_exceeded) \<and>
   attempts_of (request \<lparr>max_retries = 3, backoff_factor = 2\<rparr> env_fault) = 3 \<and>
   result_of (request \<lparr>max_retries = 3, backoff_factor = 2\<rparr> env_fault)
     = Inl (JiraClientError Network_error)"
  using request_retries_exhausted [of "\<lparr>max_retries = 2, backoff_factor = 0\<rparr>" 2 env_500]
    request_retries_exhausted [of "\<lparr>max_retries = 3, backoff_factor = 2\<rparr>" 3 env_fault]
  by (simp add: is_5xx_def env_500_def env_fault_def)

text \<open>
  C1 as stated fails for a negative backoff factor: with \<open>max_retries = 2\<close>,
  \<open>backoff_factor = -2\<close> and every attempt answered 500, the first wait is
  \<open>min (-2) 60\<close> plus a jitter of at most 1.1, \<^verbatim>\<open>time.sleep\<close> raises \<^verbatim>\<open>ValueError\<close>, and the
  call ends after one attempt.
\<close>

theorem request_negative_backoff_counterexample:
  "max_retries \<lparr>max_retries = 2, backoff_factor = - 2\<rparr> = 2 \<and>
   is_5xx (client_get env_500 1) \<and> is_5xx (client_get env_500 2) \<and>
   attempts_of (request \<lparr>max_retries = 2, backoff_factor = - 2\<rparr> env_500) = 1 \<and>
   result_of (request \<lparr>max_retries = 2, backoff_factor = - 2\<rparr> env_500) = Inl ValueError"
  by (simp add: request_def request_loop.simps[of _ _ 0] env_500_def is_5xx_def wait_time_def
      backoff_def jitter_def attempts_of_def result_of_def Let_def)

text \<open>
  C4. A response whose status is neither 200, 429 nor 5xx, and a 200 response whose body
  does not parse, end the call at once: the error is raised in the iteration that
  received the response, the attempt counter stands at that attempt and no sleep is added.
  (\<open>request s e\<close> is \<open>request_loop s e 0 []\<close>.)
\<close>

theorem request_fatal_no_retry:
  assumes "client_get e (Suc n) = Response r"
    and "status_code r \<noteq> 429" and "\<not> (500 \<le> status_code r \<and> status_code r < 600)"
    and "status_code r = 200 \<longrightarrow> json_body r = None"
  shows "request_loop s e n sl =
     (Inl (JiraClientError
             (if status_code r = 200 then Invalid_JSON_response else HTTP_status (status_code r))),
      Suc n, sl)"
  using assms(4) by (simp add: request_loop_turn[of s e n] turn_final[OF assms(1-3)])

theorem request_fatal_no_retry_witness:
  "request \<lparr>max_retries = 5, backoff_factor = 2\<rparr>
      \<lparr>client_get = (\<lambda>k. Response \<lparr>status_code = 404, retry_after = None, json_body = (None :: unit option)\<rparr>),
       uniform = (\<lambda>k a b. b), date_delta = (\<lambda>k h. None)\<rparr>
     = (Inl (JiraClientError (HTTP_status 404)), 1, []) \<and>
   request \<lparr>max_retries = 5, backoff_factor = 2\<rparr>
      \<lparr>client_get = (\<lambda>k. Response \<lparr>status_code = 200, retry_after = None, json_body = (None :: unit option)\<rparr>),
       uniform = (\<lambda>k a b. b), date_delta = (\<lambda>k h. None)\<rparr>
     = (Inl (JiraClientError Invalid_JSON_response), 1, [])"
  using request_fatal_no_retry [of
      "\<lparr>client_get = (\<lambda>k. Response \<lparr>status_code = 404, retry_after = None, json_body = (None :: unit option)\<rparr>),
       uniform = (\<lambda>k a b. b), date_delta = (\<lambda>k h. None)\<rparr>" 0
      "\<lparr>status_code = 404, retry_after = None, json_body = None\<rparr>"
      "\<lparr>max_retries = 5, backoff_factor = 2\<rparr>" "[]"]
    request_fatal_no_retry [of
      "\<lparr>client_get = (\<lambda>k. Response \<lparr>status_code = 200, retry_after = None, json_body = (None :: unit option)\<rparr>),
       uniform = (\<lambda>k a b. b), date_delta = (\<lambda>k h. None)\<rparr>" 0
      "\<lparr>status_code = 200, retry_after = None, json_body = None\<rparr>"
      "\<lparr>max_retries = 5, backoff_factor = 2\<rparr>" "[]"]
  by (simp add: request_def)

lemma turn_Sleeps_spec:
  assumes "turn s e k = Sleeps w err"
  shows "w = spec_base_wait s e k (client_get e k) + uniform e k 0 (1 + of_nat k / 10)"
proof (cases "client_get e k")
  case RequestError
  with assms show ?thesis
    by (auto simp: turn_def spec_base_wait_def backoff_def jitter_def Let_def split: if_splits)
next
  case (Response r)
  with assms show ?thesis
    by (auto simp: turn_def spec_base_wait_def backoff_def jitter_def wait_time_def hint_def
        spec_hint_def py_int_def Let_def
        split: option.splits sum.splits prod.splits if_splits)
qed

text \<open>
  C3. In a call that ended after \<open>a\<close> attempts, every attempt \<open>k < a\<close> was retried: its
  outcome was a network fault, a 429 or a 5xx, the loop slept once for it, and the sleep
  is the base wait of the specification (\<open>spec_base_wait\<close>) plus the value that
  \<^verbatim>\<open>random.uniform\<close> returned when asked for the range from 0 to \<open>1 + k / 10\<close>.
\<close>

theorem request_backoff_waits:
  assumes "request s e = (res, a, sl)" and "1 \<le> k" and "k < a"
  shows "retryable (client_get e k) \<and> k \<le> length sl \<and>
         sl ! (k - 1) =
           spec_base_wait s e k (client_get e k) + uniform e k 0 (1 + of_nat k / 10)"
proof -
  from assms(1) have run: "request_loop s e 0 [] = (res, a, sl)"
    by (simp add: request_def)
  from request_loop_trace[OF run] have
    "\<forall>k. 0 < k \<and> k < a \<longrightarrow> (\<exists>w err. turn s e k = Sleeps w err) \<and> int k < max_retries s"
    by blast
  with assms(2,3) have "\<exists>w err. turn s e k = Sleeps w err" by simp
  then obtain w err where t: "turn s e k = Sleeps w err" by blast
  then have sw: "slept s e k = w" by (simp add: slept_def)
  from request_loop_trace[OF run] have
    "sl = map (slept s e) [Suc 0..<Suc a] \<or> sl = map (slept s e) [Suc 0..<a]"
    by (auto split: turn.splits)
  then have "k \<le> length sl \<and> sl ! (k - 1) = slept s e k"
    using assms(2,3) by (auto simp: nth_append)
  with sw turn_Sleeps_retryable[OF t] turn_Sleeps_spec[OF t] show ?thesis by simp
qed

lemma run_429: "request \<lparr>max_retries = 3, backoff_factor = 2\<rparr> env_429 = (Inr (), 2, [7 + 11/20])"
  by (simp add: request_def request_loop.simps[of _ _ 0] request_loop.simps[of _ _ 1] request_loop.simps[of _ _ "Suc 0"] env_429_def wait_time_def hint_def isdigit_def py_int_def is_ascii_digit_def int_of_digits_def sleep_limit_def jitter_def Let_def)

theorem request_backoff_waits_witness:
  "request \<lparr>max_retries = 3, backoff_factor = 2\<rparr> env_429 = (Inr (), 2, [7 + 11/20]) \<and>
   retryable (client_get env_429 1) \<and> (1::nat) \<le> length [7 + 11/20 :: rat] \<and>
   [7 + 11/20 :: rat] ! (1 - 1) =
     spec_base_wait \<lparr>max_retries = 3, backoff_factor = 2\<rparr> env_429 1 (client_get env_429 1)
       + uniform env_429 1 0 (1 + of_nat 1 / 10)"
  using request_backoff_waits [OF run_429, of 1] run_429 by simp


text \<open>
  The two exits of a hinted 429 that are not retries. \<^verbatim>\<open>Retry-After\<close> with the one
  character U+00B2 passes \<^verbatim>\<open>isdigit\<close>, and \<^verbatim>\<open>int\<close> raises \<^verbatim>\<open>ValueError\<close>;
  \<^verbatim>\<open>Retry-After: 100000000000000000000\<close> is a wait that \<^verbatim>\<open>time.sleep\<close> refuses with
  \<^verbatim>\<open>OverflowError\<close>. Either way the call ends at its first attempt, without a sleep.
\<close>

lemma retry_after_superscript_raises:
  "request \<lparr>max_retries = 5, backoff_factor = 2\<rparr>
      \<lparr>client_get = (\<lambda>k. Response \<lparr>status_code = 429, retry_after = Some [char_of (178 :: nat)],
                                     json_body = (None :: unit option)\<rparr>),
       uniform = (\<lambda>k a b. b), date_delta = (\<lambda>k h. None)\<rparr>
     = (Inl ValueError, 1, [])"
  by (simp add: request_def request_loop.simps[of _ _ 0] wait_time_def hint_def isdigit_def
      py_int_def is_ascii_digit_def is_superscript_digit_def Let_def)

lemma retry_after_too_long_raises:
  "request \<lparr>max_retries = 5, backoff_factor = 2\<rparr>
      \<lparr>client_get = (\<lambda>k. Response \<lparr>status_code = 429, retry_after = Some ''100000000000000000000'',
                                     json_body = (None :: unit option)\<rparr>),
       uniform = (\<lambda>k a b. b), date_delta = (\<lambda>k h. None)\<rparr>
     = (Inl OverflowError, 1, [])"
  by (simp add: request_def request_loop.simps[of _ _ 0] wait_time_def hint_def isdigit_def
      py_int_def is_ascii_digit_def int_of_digits_def sleep_limit_def jitter_def Let_def)

subsection \<open>The generators\<close>

lemma cap_zero: "cap_reached (Some 0) f = cap_reached None f"
  by (simp add: cap_reached_def)

lemma yield_issues_zero: "yield_issues (Some 0) f xs = yield_issues None f xs"
  by (induction xs arbitrary: f) (simp_all add: cap_zero Let_def)

lemma fetch_pages_loop_zero:
  "fetch_pages_loop fuel s api p ps (Some 0) n t f c = fetch_pages_loop fuel s api p ps None n t f c"
  by (induction fuel arbitrary: n t f c) (simp_all add: cap_zero Let_def split: sum.splits)

lemma fetch_issues_loop_zero:
  "fetch_issues_loop fuel s api p ps (Some 0) n t f c = fetch_issues_loop fuel s api p ps None n t f c"
  by (induction fuel arbitrary: n t f c)
     (simp_all add: yield_issues_zero Let_def split: sum.splits prod.splits)

text \<open>
  C10. A cap of 0 is no cap: for every server and every bound on the iterations, both
  generators yield with \<^verbatim>\<open>max_issues = 0\<close> exactly what they yield with
  \<^verbatim>\<open>max_issues = None\<close>, and end the same way. From the server that holds the 30 issues
  TEST-1 .. TEST-30, with pages of 10 and a cap of 0, the issue generator yields all 30
  issues, in order, and the page generator yields three pages of ten, at the offsets 0,
  10 and 20, that hold the same 30 issues; both are then exhausted.
\<close>

theorem max_issues_zero_is_no_cap:
  "fetch_issue_pages_for_project fuel s api p ps (Some 0) start
     = fetch_issue_pages_for_project fuel s api p ps None start \<and>
   fetch_issues_for_project fuel s api p ps (Some 0)
     = fetch_issues_for_project fuel s api p ps None \<and>
   length (fst (fetch_issues_for_project 5 test_scraper test_server ''TEST'' 10 (Some 0))) = 30 \<and>
   snd (fetch_issues_for_project 5 test_scraper test_server ''TEST'' 10 (Some 0)) = Some Exhausted \<and>
   fst (fetch_issues_for_project 5 test_scraper test_server ''TEST'' 10 (Some 0))
     = map make_issue [1..<31] \<and>
   map (\<lambda>page. (length (fst page), snd page))
       (fst (fetch_issue_pages_for_project 5 test_scraper test_server ''TEST'' 10 (Some 0) 0))
     = [(10, 0, Some 30), (10, 10, Some 30), (10, 20, Some 30)] \<and>
   concat (map fst
       (fst (fetch_issue_pages_for_project 5 test_scraper test_server ''TEST'' 10 (Some 0) 0)))
     = map make_issue [1..<31] \<and>
   snd (fetch_issue_pages_for_project 5 test_scraper test_server ''TEST'' 10 (Some 0) 0)
     = Some Exhausted"
proof -
  have "length (fst (fetch_issues_for_project 5 test_scraper test_server ''TEST'' 10 (Some 0))) = 30"
    by code_simp
  moreover
  have "snd (fetch_issues_for_project 5 test_scraper test_server ''TEST'' 10 (Some 0)) = Some Exhausted"
    by code_simp
  moreover
  have "fst (fetch_issues_for_project 5 test_scraper test_server ''TEST'' 10 (Some 0))
     = map make_issue [1..<31]"
    by code_simp
  moreover
  have "map (\<lambda>page. (length (fst page), snd page))
       (fst (fetch_issue_pages_for_project 5 test_scraper test_server ''TEST'' 10 (Some 0) 0))
     = [(10, 0, Some 30), (10, 10, Some 30), (10, 20, Some 30)]"
    by code_simp
  moreover
  have "concat (map fst
       (fst (fetch_issue_pages_for_project 5 test_scraper test_server ''TEST'' 10 (Some 0) 0)))
     = map make_issue [1..<31]"
    by code_simp
  moreover
  have "snd (fetch_issue_pages_for_project 5 test_scraper test_server ''TEST'' 10 (Some 0) 0)
     = Some Exhausted"
    by code_simp
  ultimately show ?thesis
    by (simp only: fetch_issue_pages_for_project_def fetch_issues_for_project_def
        fetch_pages_loop_zero fetch_issues_loop_zero simp_thms)
qed

subsection \<open>The checkpoint store\<close>

lemma load_save [simp]: "load_checkpoint (save_checkpoint d) = d"
  by (simp add: load_checkpoint_def save_checkpoint_def json_load_def)



subsection \<open>The scraping loop\<close>




lemma fetch_pages_loop_chained:
  "chained c (fst (fetch_pages_loop fuel s api p ps m n t f c))"
  by (induction fuel arbitrary: n t f c)
     (simp_all add: Let_def case_prod_beta split: sum.splits)


subsection \<open>The short summary\<close>

lemma strip_empty_iff: "strip p = [] \<longleftrightarrow> list_all isspace p"
proof
  assume "list_all isspace p"
  then show "strip p = []"
    by (auto simp: strip_def list_all_iff dest: set_dropWhileD)
next
  assume e: "strip p = []"
  show "list_all isspace p"
  proof (rule ccontr)
    assume "\<not> list_all isspace p"
    then have ne: "dropWhile isspace p \<noteq> []" by (simp add: list_all_iff)
    then have "\<not> isspace (hd (dropWhile isspace p))" by (rule hd_dropWhile)
    moreover have "hd (dropWhile isspace p) \<in> set (rev (dropWhile isspace p))"
      using ne by simp
    ultimately have "dropWhile isspace (rev (dropWhile isspace p)) \<noteq> []"
      by (auto simp: dropWhile_eq_Nil_conv simp del: set_rev)
    with e show False by (simp add: strip_def)
  qed
qed

lemma first_paragraph:
  "(case map f (filter P xs) of [] \<Rightarrow> a | y # ys \<Rightarrow> g y)
     = (case find P xs of None \<Rightarrow> a | Some x \<Rightarrow> g (f x))"
  by (induction xs) simp_all

lemma extract_short_summary_cases:
  "extract_short_summary text m =
     (if text = [] then []
      else case first_nonblank_line text of
             None \<Rightarrow> take m text
           | Some l \<Rightarrow> if length (strip l) \<le> m then strip l
                       else rsplit_head (take m (strip l)) @ ''...'')"
proof -
  have "(\<lambda>p. strip p \<noteq> []) = (\<lambda>l. \<not> list_all isspace l)"
    by (simp add: strip_empty_iff)
  then show ?thesis
    unfolding extract_short_summary_def first_nonblank_line_def Let_def
    using first_paragraph[of "take m text"
        "\<lambda>y. if length y \<le> m then y else rsplit_head (take m y) @ ''...''"
        strip "\<lambda>l. \<not> list_all isspace l" "splitlines text"]
    by (simp add: list.case_eq_if option.case_eq_if)
qed

lemma rsplit_head_space:
  assumes "CHR '' '' \<in> set s"
  shows "\<exists>t. s = rsplit_head s @ CHR '' '' # t \<and> CHR '' '' \<notin> set t"
proof -
  let ?P = "\<lambda>c. c \<noteq> CHR '' ''"
  let ?tw = "takeWhile ?P (rev s)" and ?dw = "dropWhile ?P (rev s)"
  have ne: "?dw \<noteq> []" using assms by (auto simp: dropWhile_eq_Nil_conv)
  then have "\<not> ?P (hd ?dw)" by (rule hd_dropWhile)
  with ne have dw: "?dw = CHR '' '' # tl ?dw" by (cases ?dw) auto
  have "rev ?dw @ rev ?tw = rev (?tw @ ?dw)" by (simp only: rev_append)
  also have "\<dots> = rev (rev s)" by (simp only: takeWhile_dropWhile_id)
  finally have split: "s = rev ?dw @ rev ?tw" by simp
  have "rev ?dw = rev (tl ?dw) @ [CHR '' '']"
    by (subst dw) simp
  with split have "s = (rev (tl ?dw) @ [CHR '' '']) @ rev ?tw" by simp
  then have "s = rsplit_head s @ CHR '' '' # rev ?tw"
    using assms by (simp add: rsplit_head_def)
  moreover have "CHR '' '' \<notin> set (rev ?tw)"
    by (auto dest: set_takeWhileD)
  ultimately show ?thesis by blast
qed

lemma rsplit_head_no_space: "CHR '' '' \<notin> set s \<Longrightarrow> rsplit_head s = s"
  by (simp add: rsplit_head_def)

lemma first_nonblank_line_Nil: "first_nonblank_line [] = None"
  by (simp add: first_nonblank_line_def splitlines_def)

text \<open>
  C8, as the code has it. The summary of the empty text is empty. A text without a
  non-blank line is cut to \<open>m\<close> characters. Otherwise, with \<open>l\<close> the first non-blank line
  and \<open>strip l\<close> that line without its leading and trailing white space: \<open>strip l\<close> is
  returned when it has at most \<open>m\<close> characters; when it is longer, the result is \<open>P\<close>
  followed by \<^verbatim>\<open>"..."\<close>, where \<open>P\<close> is the part of the first \<open>m\<close> characters of \<open>strip l\<close>
  before their last space, or all \<open>m\<close> characters when there is no space among them.
  (\<open>m\<close> is \<^verbatim>\<open>max_chars\<close>, 200 by default.)
\<close>

theorem short_summary_of_stripped_line:
  "extract_short_summary [] m = [] \<and>
   (text \<noteq> [] \<and> first_nonblank_line text = None \<longrightarrow>
      extract_short_summary text m = take m text) \<and>
   (first_nonblank_line text = Some l \<and> length (strip l) \<le> m \<longrightarrow>
      extract_short_summary text m = strip l) \<and>
   (first_nonblank_line text = Some l \<and> m < length (strip l) \<longrightarrow>
      (\<exists>P. extract_short_summary text m = P @ ''...'' \<and>
           prefix P (strip l) \<and> length P \<le> m \<and>
           (CHR '' '' \<in> set (take m (strip l)) \<longrightarrow>
              (\<exists>t. take m (strip l) = P @ CHR '' '' # t \<and> CHR '' '' \<notin> set t)) \<and>
           (CHR '' '' \<notin> set (take m (strip l)) \<longrightarrow> P = take m (strip l))))"
proof -
  have 1: "extract_short_summary [] m = []"
    by (simp add: extract_short_summary_def)
  have 2: "extract_short_summary text m = take m text"
    if "text \<noteq> [] \<and> first_nonblank_line text = None"
    using that by (simp add: extract_short_summary_cases)
  have ne: "text \<noteq> []" if "first_nonblank_line text = Some l"
    using that first_nonblank_line_Nil by auto
  have 3: "extract_short_summary text m = strip l"
    if "first_nonblank_line text = Some l \<and> length (strip l) \<le> m"
    using that ne by (simp add: extract_short_summary_cases)
  have 4: "\<exists>P. extract_short_summary text m = P @ ''...'' \<and>
           prefix P (strip l) \<and> length P \<le> m \<and>
           (CHR '' '' \<in> set (take m (strip l)) \<longrightarrow>
              (\<exists>t. take m (strip l) = P @ CHR '' '' # t \<and> CHR '' '' \<notin> set t)) \<and>
           (CHR '' '' \<notin> set (take m (strip l)) \<longrightarrow> P = take m (strip l))"
    if h: "first_nonblank_line text = Some l \<and> m < length (strip l)"
  proof -
    let ?s = "take m (strip l)"
    let ?P = "rsplit_head ?s"
    have r: "extract_short_summary text m = ?P @ ''...''"
      using h ne by (simp add: extract_short_summary_cases)
    have pre: "prefix ?P ?s"
    proof (cases "CHR '' '' \<in> set ?s")
      case True
      from rsplit_head_space[OF True] show ?thesis by (auto simp: prefix_def)
    next
      case False
      then show ?thesis by (simp add: rsplit_head_no_space)
    qed
    have "prefix ?s (strip l)" by (rule take_is_prefix)
    with pre have p1: "prefix ?P (strip l)" by (rule prefix_order.trans)
    from pre have "length ?P \<le> length ?s" by (rule prefix_length_le)
    then have p2: "length ?P \<le> m" by simp
    have p3: "CHR '' '' \<in> set ?s \<longrightarrow>
              (\<exists>t. ?s = ?P @ CHR '' '' # t \<and> CHR '' '' \<notin> set t)"
      using rsplit_head_space by blast
    have p4: "CHR '' '' \<notin> set ?s \<longrightarrow> ?P = ?s"
      by (simp add: rsplit_head_no_space)
    from r p1 p2 p3 p4 show ?thesis by blast
  qed
  from 1 2 3 4 show ?thesis by blast
qed

lemma fifty_words_line:
  "first_nonblank_line fifty_words = Some fifty_words \<and> 200 < length (strip fifty_words) \<and>
   CHR '' '' \<in> set (take 200 (strip fifty_words))"
  by code_simp

lemma unbroken_line:
  "first_nonblank_line (replicate 201 (CHR ''a'')) = Some (replicate 201 (CHR ''a'')) \<and>
   200 < length (strip (replicate 201 (CHR ''a''))) \<and>
   CHR '' '' \<notin> set (take 200 (strip (replicate 201 (CHR ''a''))))"
  by code_simp

lemma padded_line:
  "first_nonblank_line '' a'' = Some '' a'' \<and> length (strip '' a'') \<le> 200 \<and> strip '' a'' = ''a''"
  by code_simp

lemma blank_text: "'' '' \<noteq> [] \<and> first_nonblank_line '' '' = None"
  by code_simp

theorem short_summary_of_stripped_line_witness:
  "extract_short_summary '' '' 200 = '' '' \<and>
   extract_short_summary '' a'' 200 = ''a'' \<and>
   extract_short_summary (replicate 201 (CHR ''a'')) 200 = replicate 200 (CHR ''a'') @ ''...'' \<and>
   (\<exists>P t. extract_short_summary fifty_words 200 = P @ ''...'' \<and> length P \<le> 200 \<and>
      take 200 (strip fifty_words) = P @ CHR '' '' # t \<and> CHR '' '' \<notin> set t)"
proof -
  have a: "extract_short_summary '' '' 200 = '' ''"
    using short_summary_of_stripped_line [of 200 "'' ''"] blank_text by simp
  have b: "extract_short_summary '' a'' 200 = ''a''"
    using short_summary_of_stripped_line [of 200 "'' a''" "'' a''"] padded_line by simp
  have "strip (replicate 201 (CHR ''a'')) = replicate 201 (CHR ''a'')"
    by code_simp
  then have c: "extract_short_summary (replicate 201 (CHR ''a'')) 200 = replicate 200 (CHR ''a'') @ ''...''"
    using short_summary_of_stripped_line
      [of 200 "replicate 201 (CHR ''a'')" "replicate 201 (CHR ''a'')"] unbroken_line
    by auto
  have d: "\<exists>P t. extract_short_summary fifty_words 200 = P @ ''...'' \<and> length P \<le> 200 \<and>
      take 200 (strip fifty_words) = P @ CHR '' '' # t \<and> CHR '' '' \<notin> set t"
    using short_summary_of_stripped_line [of 200 fifty_words fifty_words] fifty_words_line
    by blast
  from a b c d show ?thesis by blast
qed

text \<open>
  C8 as stated fails: the first non-blank line of \<^verbatim>\<open>" a"\<close> is \<^verbatim>\<open>" a"\<close>, two characters
  long, and the summary is \<^verbatim>\<open>"a"\<close>, not the line unchanged.
\<close>

theorem short_summary_line_unchanged_counterexample:
  "first_nonblank_line '' a'' = Some '' a'' \<and> length '' a'' \<le> 200 \<and>
   extract_short_summary '' a'' 200 \<noteq> '' a''"
  by code_simp

subsection \<open>Plain text of a description\<close>

lemma collapse_spaces_from_True:
  "collapse_spaces_from True s = collapse_spaces_from False (dropWhile isspace s)"
  by (induction s) simp_all

lemma collapse_spaces_spec: "collapse_spaces s = spec_single_spaces s"
proof -
  have "collapse_spaces_from False s = replace_runs isspace (\<lambda>run. '' '') s"
  proof (induction "isspace" "\<lambda>run :: string. '' ''" s rule: replace_runs.induct)
    case 1
    show ?case by simp
  next
    case (2 c cs)
    then show ?case by (simp add: collapse_spaces_from_True)
  qed
  then show ?thesis by (simp add: collapse_spaces_def spec_single_spaces_def)
qed

lemma replace_runs_split:
  "replace_runs P r s =
     (case takeWhile P s of [] \<Rightarrow> [] | c # cs \<Rightarrow> r (c # cs)) @ replace_runs P r (dropWhile P s)"
  by (cases s) simp_all

lemma takeWhile_eq_replicate: "takeWhile (\<lambda>c. c = x) s = replicate (length (takeWhile (\<lambda>c. c = x) s)) x"
  by (induction s) simp_all

lemma blank_line_run:
  "(case replicate n (CHR 0x0A) of [] \<Rightarrow> []
    | c # cs \<Rightarrow> if 2 \<le> length (c # cs) then ''\<newline>\<newline>'' else c # cs)
   = replicate (min n 2) (CHR 0x0A)"
proof -
  consider "n = 0" | "n = 1" | "2 \<le> n" by linarith
  then show ?thesis
  proof cases
    case 1 then show ?thesis by simp
  next
    case 2 then show ?thesis by simp
  next
    case 3
    then obtain k where "n = Suc (Suc k)" by (metis Suc_le_D numeral_2_eq_2 le_Suc_eq not_less_eq_eq)
    then show ?thesis by (simp add: numeral_2_eq_2)
  qed
qed

lemma collapse_newlines_from_spec:
  "collapse_newlines_from k s =
     replicate (min (k + length (takeWhile (\<lambda>c. c = CHR 0x0A) s)) 2) (CHR 0x0A)
       @ spec_blank_lines (dropWhile (\<lambda>c. c = CHR 0x0A) s)"
proof (induction s arbitrary: k)
  case Nil
  show ?case by (simp add: spec_blank_lines_def)
next
  case (Cons c s)
  show ?case
  proof (cases "c = CHR 0x0A")
    case True
    then show ?thesis using Cons[of "Suc k"] by simp
  next
    case False
    let ?P = "\<lambda>c. c = CHR 0x0A"
    let ?r = "\<lambda>run. if 2 \<le> length run then ''\<newline>\<newline>'' else run"
    have "spec_blank_lines s
        = (case takeWhile ?P s of [] \<Rightarrow> [] | c # cs \<Rightarrow> ?r (c # cs))
            @ spec_blank_lines (dropWhile ?P s)"
      unfolding spec_blank_lines_def by (rule replace_runs_split)
    also have "(case takeWhile ?P s of [] \<Rightarrow> [] | c # cs \<Rightarrow> ?r (c # cs))
        = replicate (min (length (takeWhile ?P s)) 2) (CHR 0x0A)"
      using blank_line_run[of "length (takeWhile ?P s)"] takeWhile_eq_replicate[of "CHR 0x0A" s]
      by simp
    finally have "spec_blank_lines s = collapse_newlines_from 0 s"
      using Cons[of 0] by simp
    with False show ?thesis by (simp add: spec_blank_lines_def)
  qed
qed

lemma collapse_newlines_spec: "collapse_newlines s = spec_blank_lines s"
proof -
  let ?P = "\<lambda>c. c = CHR 0x0A"
  let ?r = "\<lambda>run. if 2 \<le> length run then ''\<newline>\<newline>'' else run"
  have "spec_blank_lines s
      = (case takeWhile ?P s of [] \<Rightarrow> [] | c # cs \<Rightarrow> ?r (c # cs))
          @ spec_blank_lines (dropWhile ?P s)"
    unfolding spec_blank_lines_def by (rule replace_runs_split)
  also have "(case takeWhile ?P s of [] \<Rightarrow> [] | c # cs \<Rightarrow> ?r (c # cs))
      = replicate (min (length (takeWhile ?P s)) 2) (CHR 0x0A)"
    using blank_line_run[of "length (takeWhile ?P s)"] takeWhile_eq_replicate[of "CHR 0x0A" s]
    by simp
  finally show ?thesis
    using collapse_newlines_from_spec[of 0 s] by (simp add: collapse_newlines_def)
qed

lemma markup_example:
  "html_to_text (with_soup lib) (JStr ''<p>Hello</p><p>World</p>'') = Inr ''Hello\<newline>World''"
proof -
  have p: "plain_markup ''<p>Hello</p><p>World</p>''" by code_simp
  have g: "soup_get_text ''\<newline>'' ''<p>Hello</p><p>World</p>'' = ''Hello\<newline>World''"
    by code_simp
  have c: "collapse_newlines (strip ''Hello\<newline>World'') = ''Hello\<newline>World''"
    by code_simp
  show ?thesis
    by (simp add: html_to_text_def falsy_def markup_to_text_def with_soup_def p g c)
qed

lemma tree_example: "html_to_text lib hi_there = Inr ''Hi there''"
  by (simp add: html_to_text_def hi_there_def falsy_def adf_to_text_def is_block_def
      collapse_spaces_def strip_def isspace_def)

text \<open>
  C9, as the code has it. The two paths normalise differently, each by its own rule.
  Markup path, for every library and every description \<open>s\<close> that is a string: the text
  that the parser returns (text segments joined by single line feeds) is stripped, then
  every maximal run of two or more line feeds is replaced by exactly two line feeds, one
  blank line, and every other character stays (\<open>spec_blank_lines\<close>). The description
  \<^verbatim>\<open><p>Hello</p><p>World</p>\<close> has two segments and nothing between them, so it yields
  \<^verbatim>\<open>Hello\nWorld\<close>, with one line feed. Tree path, for every tree \<open>JObj m\<close>: every maximal
  run of white space in the text collected by \<^verbatim>\<open>_walk\<close> is replaced by exactly one space,
  every other character stays (\<open>spec_single_spaces\<close>), and the result is stripped; when
  \<^verbatim>\<open>_walk\<close> raises, so does the call. The example tree yields \<^verbatim>\<open>Hi there\<close>.
\<close>

theorem text_normalisation_per_path:
  "html_to_text (with_soup lib) (JStr ''<p>Hello</p><p>World</p>'') = Inr ''Hello\<newline>World'' \<and>
   html_to_text lib hi_there = Inr ''Hi there'' \<and>
   html_to_text lib (JStr s)
     = Inr (if s = [] then [] else spec_blank_lines (strip (get_text lib ''\<newline>'' s))) \<and>
   html_to_text lib (JObj m)
     = (case walk (py_str lib) (JObj m) of
          Inl e \<Rightarrow> Inl e
        | Inr t \<Rightarrow> Inr (strip (spec_single_spaces t)))"
proof -
  have markup: "html_to_text lib (JStr s)
     = Inr (if s = [] then [] else spec_blank_lines (strip (get_text lib ''\<newline>'' s)))"
    by (simp add: html_to_text_def falsy_def markup_to_text_def collapse_newlines_spec)
  have tree: "html_to_text lib (JObj m)
     = (case walk (py_str lib) (JObj m) of
          Inl e \<Rightarrow> Inl e
        | Inr t \<Rightarrow> Inr (strip (spec_single_spaces t)))"
  proof (cases "m = []")
    case True
    then show ?thesis
      by (simp add: html_to_text_def falsy_def is_block_def spec_single_spaces_def strip_def)
  next
    case False
    then show ?thesis
      by (simp add: html_to_text_def falsy_def adf_to_text_def collapse_spaces_spec
          del: walk.simps split: sum.splits)
  qed
  from markup_example tree_example markup tree show ?thesis by blast
qed

lemma spaced_markup_example:
  "(if ''<p>A</p>\<newline><p>B</p>'' = [] then []
    else spec_blank_lines
      (strip (get_text (with_soup no_library) ''\<newline>'' ''<p>A</p>\<newline><p>B</p>'')))
     = ''A\<newline>\<newline>B''"
  by code_simp

lemma long_run_example:
  "(if ''a\<newline>\<newline>\<newline>\<newline>b\<newline>c'' = [] then []
    else spec_blank_lines
      (strip (get_text (with_soup no_library) ''\<newline>'' ''a\<newline>\<newline>\<newline>\<newline>b\<newline>c'')))
     = ''a\<newline>\<newline>b\<newline>c''"
  by code_simp

lemma spaced_tree_example:
  "(case walk (py_str no_library) (JObj [(''content'', JStr ''  a \<newline>  b c '')]) of
      Inl e \<Rightarrow> Inl e
    | Inr t \<Rightarrow> Inr (strip (spec_single_spaces t)))
     = Inr ''a b c''"
  by code_simp

text \<open>
  The theorem at three inputs: markup with a line feed between two paragraphs (three
  line feeds after the join, two in the result), a text with a run of four line feeds
  and a single one, and a tree whose text has runs of white space inside and at both ends.
\<close>

theorem text_normalisation_per_path_witness:
  "html_to_text (with_soup no_library) (JStr ''<p>A</p>\<newline><p>B</p>'') = Inr ''A\<newline>\<newline>B'' \<and>
   html_to_text (with_soup no_library) (JStr ''a\<newline>\<newline>\<newline>\<newline>b\<newline>c'')
     = Inr ''a\<newline>\<newline>b\<newline>c'' \<and>
   html_to_text no_library (JObj [(''content'', JStr ''  a \<newline>  b c '')]) = Inr ''a b c''"
proof -
  have a: "html_to_text (with_soup no_library) (JStr ''<p>A</p>\<newline><p>B</p>'')
      = Inr (if ''<p>A</p>\<newline><p>B</p>'' = [] then []
             else spec_blank_lines
               (strip (get_text (with_soup no_library) ''\<newline>'' ''<p>A</p>\<newline><p>B</p>'')))"
    using text_normalisation_per_path
      [where lib = "with_soup no_library" and s = "''<p>A</p>\<newline><p>B</p>''"]
    by blast
  have b: "html_to_text (with_soup no_library) (JStr ''a\<newline>\<newline>\<newline>\<newline>b\<newline>c'')
      = Inr (if ''a\<newline>\<newline>\<newline>\<newline>b\<newline>c'' = [] then []
             else spec_blank_lines
               (strip (get_text (with_soup no_library) ''\<newline>''
                  ''a\<newline>\<newline>\<newline>\<newline>b\<newline>c'')))"
    using text_normalisation_per_path
      [where lib = "with_soup no_library"
         and s = "''a\<newline>\<newline>\<newline>\<newline>b\<newline>c''"]
    by blast
  have c: "html_to_text no_library (JObj [(''content'', JStr ''  a \<newline>  b c '')])
      = (case walk (py_str no_library) (JObj [(''content'', JStr ''  a \<newline>  b c '')]) of
           Inl e \<Rightarrow> Inl e
         | Inr t \<Rightarrow> Inr (strip (spec_single_spaces t)))"
    using text_normalisation_per_path
      [where lib = no_library and m = "[(''content'', JStr ''  a \<newline>  b c '')]"]
    by blast
  show ?thesis
    unfolding a b c spaced_markup_example long_run_example spaced_tree_example
    by (rule conjI refl)+
qed

text \<open>
  C9 as stated fails on the markup example: the result has one line feed between
  \<^verbatim>\<open>Hello\<close> and \<^verbatim>\<open>World\<close>, not a blank line.
\<close>

theorem markup_example_blank_line_counterexample:
  "html_to_text (with_soup no_library) (JStr ''<p>Hello</p><p>World</p>'')
     \<noteq> Inr ''Hello\<newline>\<newline>World''"
  by code_simp

subsection \<open>The store on any file\<close>

lemma of_char_below_256: "(of_char c :: int) < 256"
  by (metis of_char_mod_256 pos_mod_bound zero_less_numeral)

lemma lit_eq_iff [simp]: "lit a = lit b \<longleftrightarrow> a = b"
proof -
  have "inj (of_char :: char \<Rightarrow> int)" by (rule injI) simp
  then show ?thesis unfolding lit_def by (rule inj_map_eq_map)
qed

lemma encodable_lit [simp]: "encodable (lit s)"
proof -
  have "(of_char c :: int) < 0xD800" for c
    by (rule less_trans[OF of_char_below_256]) simp
  then show ?thesis by (simp add: encodable_def lit_def list_all_iff)
qed

lemma lit_names_differ [simp]:
  "lit ''last_start'' \<noteq> lit ''downloaded_keys''" "lit ''downloaded_keys'' \<noteq> lit ''last_start''"
  by simp_all

lemma encodable_members_lookup:
  "encodable_members m \<Longrightarrow> map_of m k = Some v \<Longrightarrow> encodable_value v"
  by (induction m) (auto split: if_splits)

lemma encodable_members_update:
  "encodable_members m \<Longrightarrow> encodable k \<Longrightarrow> encodable_value v \<Longrightarrow>
   encodable_members (AList.update k v m)"
  by (induction m) auto

lemma encodable_values_snoc:
  "encodable_values (xs @ [x]) \<longleftrightarrow> encodable_values xs \<and> encodable_value x"
  by (induction xs) auto

lemma encodable_load: "encodable_file f \<Longrightarrow> encodable_value (load_any f)"
  by (cases f) (simp_all add: encodable_file_def load_any_def default_document_def)

lemma save_any_encodable: "encodable_value d \<Longrightarrow> save_any d = (None, Holds d)"
  by (simp add: save_any_def)

lemma open_project_proj:
  "open_project p data = Inr (m, ps, proj) \<Longrightarrow> proj_any p data = Inr proj"
  by (auto simp: open_project_def proj_any_def dict_get_def split: json_value.splits option.splits)

lemma proj_any_close:
  assumes "open_project p data = Inr (m, ps, proj)"
  shows "proj_any q (close_project p m ps e) = (if q = p then Inr (JObj e) else proj_any q data)"
  using assms
  by (auto simp: open_project_def close_project_def proj_any_def dict_get_def update_conv'
      split: json_value.splits option.splits)

lemma encodable_open:
  assumes "open_project p data = Inr (m, ps, proj)" and "encodable_value data"
  shows "encodable_members m" and "encodable_members ps" and "encodable_value proj"
proof -
  from assms(1) have d: "data = JObj m"
    by (auto simp: open_project_def split: json_value.splits)
  with assms(2) show m: "encodable_members m" by simp
  from assms(1) d have ps: "(case map_of m (lit ''projects'') of Some v \<Rightarrow> v | None \<Rightarrow> JObj []) = JObj ps"
    by (auto simp: open_project_def split: json_value.splits)
  have "encodable_value (case map_of m (lit ''projects'') of Some v \<Rightarrow> v | None \<Rightarrow> JObj [])"
    using m encodable_members_lookup by (auto split: option.splits)
  with ps show e: "encodable_members ps" by simp
  from assms(1) d ps have "proj = (case map_of ps (lit p) of Some v \<Rightarrow> v | None \<Rightarrow> JObj [])"
    by (simp add: open_project_def)
  then show "encodable_value proj"
    using e encodable_members_lookup by (auto split: option.splits)
qed

lemma encodable_close:
  "encodable_members m \<Longrightarrow> encodable_members ps \<Longrightarrow> encodable_members e \<Longrightarrow>
   encodable_value (close_project p m ps e)"
  by (simp add: close_project_def encodable_members_update)

lemma py_in_snoc: "py_in k (JArr xs) = Inr True \<Longrightarrow> py_in k (JArr (xs @ [x])) = Inr True"
  by (simp add: py_in_def)

text \<open>
  What a call of \<^verbatim>\<open>mark_downloaded\<close> does to a file whose texts can be encoded, for a key
  that can be encoded: the file stays as it is (an exception before the write), or the
  write succeeds and the entry of the project has its list of keys extended, or the same.
\<close>

lemma mark_downloaded_any_cases:
  assumes "mark_downloaded_any p k f = (x, f')"
  shows "f' = f \<or>
     (\<exists>m ps e keys'. open_project p (load_any f) = Inr (m, ps, JObj e) \<and>
        (keys' = (case map_of e (lit ''downloaded_keys'') of Some v \<Rightarrow> v | None \<Rightarrow> JArr []) \<or>
         (\<exists>xs. (case map_of e (lit ''downloaded_keys'') of Some v \<Rightarrow> v | None \<Rightarrow> JArr []) = JArr xs \<and>
               keys' = JArr (xs @ [JStr k]))) \<and>
        (x, f') = save_any (close_project p m ps (AList.update (lit ''downloaded_keys'') keys' e)))"
proof (cases "open_project p (load_any f)")
  case (Inl exn)
  with assms show ?thesis by (simp add: mark_downloaded_any_def)
next
  case (Inr t)
  obtain m ps proj where t: "t = (m, ps, proj)" by (cases t) auto
  show ?thesis
  proof (cases "\<exists>e. proj = JObj e")
    case False
    with assms Inr t show ?thesis
      by (cases proj) (simp_all add: mark_downloaded_any_def)
  next
    case True
    then obtain e where e: "proj = JObj e" by blast
    let ?keys = "case map_of e (lit ''downloaded_keys'') of Some v \<Rightarrow> v | None \<Rightarrow> JArr []"
    show ?thesis
    proof (cases "py_in k ?keys")
      case (Inl exn)
      with assms Inr t e show ?thesis by (simp add: mark_downloaded_any_def)
    next
      case present: (Inr b)
      show ?thesis
      proof (cases b)
        case True
        with assms Inr t e present have
          "(x, f') = save_any (close_project p m ps (AList.update (lit ''downloaded_keys'') ?keys e))"
          by (simp add: mark_downloaded_any_def)
        with Inr t e show ?thesis by blast
      next
        case False
        show ?thesis
        proof (cases "\<exists>xs. ?keys = JArr xs")
          case no: False
          with assms Inr t e present False show ?thesis
            by (cases ?keys) (simp_all add: mark_downloaded_any_def)
        next
          case True
          then obtain xs where xs: "?keys = JArr xs" by blast
          with assms Inr t e present False have
            "(x, f') = save_any (close_project p m ps
               (AList.update (lit ''downloaded_keys'') (JArr (xs @ [JStr k])) e))"
            by (simp add: mark_downloaded_any_def)
          with Inr t e xs show ?thesis by blast
        qed
      qed
    qed
  qed
qed

lemma mark_downloaded_any_effect:
  assumes "encodable_file f" and "encodable k" and "mark_downloaded_any p k f = (x, f')"
  shows "encodable_file f'"
    and "get_last_start_any i q f' = get_last_start_any i q f"
    and "is_downloaded_any q k' f = Inr True \<Longrightarrow> is_downloaded_any q k' f' = Inr True"
proof -
  let ?DK = "lit ''downloaded_keys''"
  from mark_downloaded_any_cases[OF assms(3)]
  consider (same) "f' = f"
    | (saved) m ps e keys' where "open_project p (load_any f) = Inr (m, ps, JObj e)"
        "keys' = (case map_of e ?DK of Some v \<Rightarrow> v | None \<Rightarrow> JArr []) \<or>
          (\<exists>xs. (case map_of e ?DK of Some v \<Rightarrow> v | None \<Rightarrow> JArr []) = JArr xs \<and>
                keys' = JArr (xs @ [JStr k]))"
        "(x, f') = save_any (close_project p m ps (AList.update ?DK keys' e))"
    by blast
  then have "encodable_file f' \<and> get_last_start_any i q f' = get_last_start_any i q f \<and>
      (is_downloaded_any q k' f = Inr True \<longrightarrow> is_downloaded_any q k' f' = Inr True)"
  proof cases
    case same
    with assms(1) show ?thesis by simp
  next
    case (saved m ps e keys')
    note op = saved(1) and keys' = saved(2) and sv = saved(3)
    let ?keys = "case map_of e ?DK of Some v \<Rightarrow> v | None \<Rightarrow> JArr []"
    let ?e' = "AList.update ?DK keys' e"
    from encodable_open[OF op encodable_load[OF assms(1)]]
    have em: "encodable_members m" and eps: "encodable_members ps" and ee: "encodable_members e"
      by simp_all
    have "encodable_value ?keys"
      using ee encodable_members_lookup by (auto split: option.splits)
    with keys' assms(2) have "encodable_value keys'"
      by (auto simp: encodable_values_snoc)
    with ee have "encodable_members ?e'" by (simp add: encodable_members_update)
    with em eps have enc: "encodable_value (close_project p m ps ?e')"
      by (rule encodable_close)
    with sv have f': "f' = Holds (close_project p m ps ?e')"
      by (simp add: save_any_encodable)
    have ld: "load_any f' = close_project p m ps ?e'" by (simp add: f' load_any_def)
    have pr: "proj_any r (load_any f') = (if r = p then Inr (JObj ?e') else proj_any r (load_any f))"
      for r unfolding ld by (rule proj_any_close[OF op])
    have old: "proj_any p (load_any f) = Inr (JObj e)"
      by (rule open_project_proj[OF op])
    have a: "encodable_file f'" using enc by (simp add: f' encodable_file_def)
    have b: "get_last_start_any i q f' = get_last_start_any i q f"
      using old by (simp add: get_last_start_any_def pr dict_get_def update_conv')
    have c: "is_downloaded_any q k' f' = Inr True" if h: "is_downloaded_any q k' f = Inr True"
    proof (cases "q = p")
      case False
      with h show ?thesis by (simp add: is_downloaded_any_def pr)
    next
      case True
      with h old have "py_in k' ?keys = Inr True"
        by (simp add: is_downloaded_any_def dict_get_def)
      with keys' have "py_in k' keys' = Inr True"
        by (auto simp: py_in_snoc)
      with True show ?thesis
        by (simp add: is_downloaded_any_def pr dict_get_def update_conv')
    qed
    from a b c show ?thesis by blast
  qed
  then show "encodable_file f'"
    and "get_last_start_any i q f' = get_last_start_any i q f"
    and "is_downloaded_any q k' f = Inr True \<Longrightarrow> is_downloaded_any q k' f' = Inr True"
    by blast+
qed

lemma set_last_start_any_cases:
  assumes "set_last_start_any p n f = (x, f')"
  shows "f' = f \<or>
     (\<exists>m ps e. open_project p (load_any f) = Inr (m, ps, JObj e) \<and>
        (x, f') = save_any (close_project p m ps (AList.update (lit ''last_start'') (JInt n) e)))"
proof (cases "open_project p (load_any f)")
  case (Inl exn)
  with assms show ?thesis by (simp add: set_last_start_any_def)
next
  case (Inr t)
  obtain m ps proj where t: "t = (m, ps, proj)" by (cases t) auto
  with assms Inr show ?thesis
    by (cases proj) (auto simp: set_last_start_any_def)
qed

lemma set_last_start_any_effect:
  assumes "encodable_file f" and "set_last_start_any p n f = (x, f')"
  shows "encodable_file f'"
    and "q \<noteq> p \<Longrightarrow> get_last_start_any i q f' = get_last_start_any i q f"
    and "f' = f \<or> get_last_start_any i p f' = Inr n"
    and "is_downloaded_any q k' f' = is_downloaded_any q k' f"
proof -
  let ?LS = "lit ''last_start''"
  from set_last_start_any_cases[OF assms(2)]
  consider (same) "f' = f"
    | (saved) m ps e where "open_project p (load_any f) = Inr (m, ps, JObj e)"
        "(x, f') = save_any (close_project p m ps (AList.update ?LS (JInt n) e))"
    by blast
  then have "encodable_file f' \<and>
      (q \<noteq> p \<longrightarrow> get_last_start_any i q f' = get_last_start_any i q f) \<and>
      (f' = f \<or> get_last_start_any i p f' = Inr n) \<and>
      is_downloaded_any q k' f' = is_downloaded_any q k' f"
  proof cases
    case same
    with assms(1) show ?thesis by simp
  next
    case (saved m ps e)
    note op = saved(1) and sv = saved(2)
    let ?e' = "AList.update ?LS (JInt n) e"
    from encodable_open[OF op encodable_load[OF assms(1)]]
    have em: "encodable_members m" and eps: "encodable_members ps" and ee: "encodable_members e"
      by simp_all
    from ee have "encodable_members ?e'" by (simp add: encodable_members_update)
    with em eps have enc: "encodable_value (close_project p m ps ?e')"
      by (rule encodable_close)
    with sv have f': "f' = Holds (close_project p m ps ?e')"
      by (simp add: save_any_encodable)
    have ld: "load_any f' = close_project p m ps ?e'" by (simp add: f' load_any_def)
    have pr: "proj_any r (load_any f') = (if r = p then Inr (JObj ?e') else proj_any r (load_any f))"
      for r unfolding ld by (rule proj_any_close[OF op])
    have old: "proj_any p (load_any f) = Inr (JObj e)"
      by (rule open_project_proj[OF op])
    have a: "encodable_file f'" using enc by (simp add: f' encodable_file_def)
    have b: "get_last_start_any i q f' = get_last_start_any i q f" if "q \<noteq> p"
      using that by (simp add: get_last_start_any_def pr)
    have c: "get_last_start_any i p f' = Inr n"
      by (simp add: get_last_start_any_def pr dict_get_def update_conv' py_int_value_def)
    have d: "is_downloaded_any q k' f' = is_downloaded_any q k' f"
      using old by (simp add: is_downloaded_any_def pr dict_get_def update_conv')
    from a b c d show ?thesis by blast
  qed
  then show "encodable_file f'"
    and "q \<noteq> p \<Longrightarrow> get_last_start_any i q f' = get_last_start_any i q f"
    and "f' = f \<or> get_last_start_any i p f' = Inr n"
    and "is_downloaded_any q k' f' = is_downloaded_any q k' f"
    by blast+
qed

lemma progress_any_refl: "progress_any i q a a"
  by (simp add: progress_any_def)

lemma progress_any_transp: "transp (progress_any i q)"
proof (rule transpI)
  fix a b c
  assume ab: "progress_any i q a b" and bc: "progress_any i q b c"
  show "progress_any i q a c"
    unfolding progress_any_def
  proof (intro conjI allI impI)
    fix v assume "get_last_start_any i q a = Inr v"
    with ab obtain v' where v': "get_last_start_any i q b = Inr v'" "v \<le> v'"
      unfolding progress_any_def by blast
    with bc obtain v'' where "get_last_start_any i q c = Inr v''" "v' \<le> v''"
      unfolding progress_any_def by blast
    with v' show "\<exists>v'. get_last_start_any i q c = Inr v' \<and> v \<le> v'" by auto
  next
    fix k assume "is_downloaded_any q k a = Inr True"
    with ab bc show "is_downloaded_any q k c = Inr True"
      unfolding progress_any_def by blast
  qed
qed

lemma process_issue_any_effect:
  assumes "encodable_file f" and "\<forall>k. key = Some k \<longrightarrow> encodable k"
    and "process_issue_any p f key = (x, f')"
  shows "encodable_file f'"
    and "get_last_start_any i q f' = get_last_start_any i q f"
    and "progress_any i q f f'"
proof -
  have "f' = f \<or> (\<exists>k. key = Some k \<and> mark_downloaded_any p k f = (x, f'))"
    using assms(3)
    by (auto simp: process_issue_any_def split: option.splits sum.splits if_splits)
  then have "encodable_file f' \<and> get_last_start_any i q f' = get_last_start_any i q f \<and>
      progress_any i q f f'"
  proof (elim disjE exE conjE)
    assume "f' = f"
    with assms(1) show ?thesis by (simp add: progress_any_refl)
  next
    fix k assume k: "key = Some k" and mk: "mark_downloaded_any p k f = (x, f')"
    from k assms(2) have ek: "encodable k" by simp
    note eff = mark_downloaded_any_effect[OF assms(1) ek mk]
    have "progress_any i q f f'"
      unfolding progress_any_def using eff(2)[of i q] eff(3)[of q] by simp
    with eff(1) eff(2)[of i q] show ?thesis by simp
  qed
  then show "encodable_file f'"
    and "get_last_start_any i q f' = get_last_start_any i q f"
    and "progress_any i q f f'"
    by blast+
qed

lemma issues_any_trace:
  assumes "encodable_file f" and "\<forall>k. Some k \<in> set keys \<longrightarrow> encodable k"
    and "issues_any p f keys = (fs, r)"
  shows "successively (progress_any i q) (f # fs) \<and> encodable_file (last (f # fs)) \<and>
         get_last_start_any i p (last (f # fs)) = get_last_start_any i p f"
  using assms
proof (induction keys arbitrary: f fs r)
  case Nil
  then show ?case by simp
next
  case (Cons key keys)
  obtain x f' where pi: "process_issue_any p f key = (x, f')"
    by (cases "process_issue_any p f key") auto
  from Cons.prems(2) have ek: "\<forall>k. key = Some k \<longrightarrow> encodable k" by simp
  note eff = process_issue_any_effect[OF Cons.prems(1) ek pi]
  show ?case
  proof (cases x)
    case (Some exn)
    with Cons.prems(3) pi have "fs = [f']" by simp
    with eff(1) eff(2)[of i p] eff(3)[of i q] show ?thesis by simp
  next
    case None
    obtain gs r' where rest: "issues_any p f' keys = (gs, r')"
      by (cases "issues_any p f' keys") auto
    with Cons.prems(3) pi None have fs: "fs = f' # gs" by simp
    from Cons.prems(2) have "\<forall>k. Some k \<in> set keys \<longrightarrow> encodable k" by simp
    from Cons.IH[OF eff(1) this rest]
    have ih: "successively (progress_any i q) (f' # gs)" "encodable_file (last (f' # gs))"
      "get_last_start_any i p (last (f' # gs)) = get_last_start_any i p f'"
      by simp_all
    from ih eff(2)[of i p] eff(3)[of i q] show ?thesis
      by (simp add: fs)
  qed
qed

lemma page_any_trace:
  assumes "encodable_file f" and "\<forall>k. Some k \<in> set (fst page) \<longrightarrow> encodable k"
    and "page_any p f page = (fs, r)"
    and "\<forall>v. get_last_start_any i p f = Inr v \<longrightarrow> v \<le> fst (snd page) + int (length (fst page))"
  shows "successively (progress_any i q) (f # fs) \<and> encodable_file (last (f # fs)) \<and>
         (\<forall>v. get_last_start_any i p (last (f # fs)) = Inr v \<longrightarrow>
              v \<le> fst (snd page) + int (length (fst page)))"
proof -
  obtain keys st t where page: "page = (keys, st, t)" by (cases page) auto
  obtain gs r' where iss: "issues_any p f keys = (gs, r')"
    by (cases "issues_any p f keys") auto
  from assms(2) have "\<forall>k. Some k \<in> set keys \<longrightarrow> encodable k" by (simp add: page)
  from issues_any_trace[OF assms(1) this iss]
  have tr: "successively (progress_any i q) (f # gs)" and en: "encodable_file (last (f # gs))"
    and same: "get_last_start_any i p (last (f # gs)) = get_last_start_any i p f"
    by blast+
  from assms(4) have bound: "\<forall>v. get_last_start_any i p f = Inr v \<longrightarrow> v \<le> st + int (length keys)"
    by (simp add: page)
  show ?thesis
  proof (cases r')
    case (Some exn)
    with assms(3) iss have "fs = gs" by (simp add: page_any_def page)
    with tr en same bound show ?thesis by (simp add: page)
  next
    case None
    let ?g = "last (f # gs)"
    obtain x f' where st': "set_last_start_any p (st + int (length keys)) ?g = (x, f')"
      by (cases "set_last_start_any p (st + int (length keys)) ?g") auto
    with assms(3) iss None have fs: "fs = gs @ [f']" by (simp add: page_any_def page)
    note eff = set_last_start_any_effect[OF en st']
    have step: "progress_any i q ?g f'"
      unfolding progress_any_def
    proof (intro conjI allI impI)
      fix v assume v: "get_last_start_any i q ?g = Inr v"
      show "\<exists>v'. get_last_start_any i q f' = Inr v' \<and> v \<le> v'"
      proof (cases "q = p")
        case False
        with eff(2)[of q i] v show ?thesis by simp
      next
        case True
        from eff(3)[of i] show ?thesis
        proof
          assume "f' = ?g"
          with v show ?thesis by simp
        next
          assume n: "get_last_start_any i p f' = Inr (st + int (length keys))"
          from v True same bound have "v \<le> st + int (length keys)" by simp
          with n True show ?thesis by simp
        qed
      qed
    next
      fix k assume "is_downloaded_any q k ?g = Inr True"
      with eff(4)[of q k] show "is_downloaded_any q k f' = Inr True" by simp
    qed
    have "f # fs = (f # gs) @ [f']" by (simp add: fs)
    then have a: "successively (progress_any i q) (f # fs)"
      using tr step by (simp only: successively_append_iff) simp
    have b: "encodable_file (last (f # fs))" using eff(1) by (simp add: fs)
    have c: "\<forall>v. get_last_start_any i p (last (f # fs)) = Inr v \<longrightarrow> v \<le> st + int (length keys)"
    proof (intro allI impI)
      fix v assume "get_last_start_any i p (last (f # fs)) = Inr v"
      then have v: "get_last_start_any i p f' = Inr v" by (simp add: fs)
      from eff(3)[of i] show "v \<le> st + int (length keys)"
      proof
        assume "f' = ?g"
        with v same bound show ?thesis by simp
      next
        assume "get_last_start_any i p f' = Inr (st + int (length keys))"
        with v show ?thesis by simp
      qed
    qed
    from a b c show ?thesis by (simp add: page)
  qed
qed

lemma pages_any_trace:
  assumes "encodable_file f"
    and "\<forall>page \<in> set pages. \<forall>k. Some k \<in> set (fst page) \<longrightarrow> encodable k"
    and "chained c pages"
    and "\<forall>v. get_last_start_any i p f = Inr v \<longrightarrow> v \<le> c"
    and "pages_any p f pages = (fs, r)"
  shows "successively (progress_any i q) (f # fs)"
  using assms
proof (induction pages arbitrary: f c fs r)
  case Nil
  then show ?case by simp
next
  case (Cons page pages)
  obtain gs r' where pg: "page_any p f page = (gs, r')"
    by (cases "page_any p f page") auto
  from Cons.prems(3) have st: "fst (snd page) = c"
    and ch: "chained (c + int (length (fst page))) pages"
    by simp_all
  from Cons.prems(2) have ek: "\<forall>k. Some k \<in> set (fst page) \<longrightarrow> encodable k" by simp
  from Cons.prems(4) st
  have bound: "\<forall>v. get_last_start_any i p f = Inr v \<longrightarrow> v \<le> fst (snd page) + int (length (fst page))"
    by auto
  from page_any_trace[OF Cons.prems(1) ek pg bound]
  have tr: "successively (progress_any i q) (f # gs)" and en: "encodable_file (last (f # gs))"
    and nb: "\<forall>v. get_last_start_any i p (last (f # gs)) = Inr v \<longrightarrow> v \<le> c + int (length (fst page))"
    using st by simp_all
  show ?case
  proof (cases r')
    case (Some exn)
    with Cons.prems(5) pg have "fs = gs" by simp
    with tr show ?thesis by simp
  next
    case None
    obtain hs r'' where rest: "pages_any p (last (f # gs)) pages = (hs, r'')"
      by (cases "pages_any p (last (f # gs)) pages") auto
    with Cons.prems(5) pg None have fs: "fs = gs @ hs" by simp
    from Cons.prems(2) have "\<forall>page \<in> set pages. \<forall>k. Some k \<in> set (fst page) \<longrightarrow> encodable k"
      by simp
    from Cons.IH[OF en this ch nb rest]
    have ih: "successively (progress_any i q) (last (f # gs) # hs)" .
    have "f # fs = (f # gs) @ hs" by (simp add: fs)
    then show ?thesis
      using tr ih by (simp only: successively_append_iff) (auto simp: successively_Cons)
  qed
qed



text \<open>
  C7, as the code has it. Take a checkpoint file whose texts UTF-8 can encode, and a run
  in which every key that the server serves can be encoded: then every write of the file
  succeeds, and along the files that the run leaves one after the other (after each
  issue, after each page, up to the exception that ends the run, if any) the invariant
  holds for every collection \<open>q\<close>: an offset that \<^verbatim>\<open>get_last_start\<close> returned is never
  followed by a smaller one, and a key that \<^verbatim>\<open>is_downloaded\<close> found stays found.
\<close>

theorem checkpoint_progress_monotone:
  assumes "encodable_file f"
    and "\<forall>page \<in> set (fst (fetch_issue_pages_for_project fuel s api p page_size max_issues
                              (start_any int_str p f))).
           \<forall>k. Some k \<in> set (fst page) \<longrightarrow> encodable k"
  shows "sorted_wrt (progress_any int_str q)
           (f # fst (scrape_any int_str fuel s api p page_size max_issues f))"
proof -
  let ?pages = "fst (fetch_issue_pages_for_project fuel s api p page_size max_issues
                  (start_any int_str p f))"
  obtain fs r where run: "pages_any p f ?pages = (fs, r)"
    by (cases "pages_any p f ?pages") auto
  have ch: "chained (start_any int_str p f) ?pages"
    by (simp add: fetch_issue_pages_for_project_def fetch_pages_loop_chained)
  have bound: "\<forall>v. get_last_start_any int_str p f = Inr v \<longrightarrow> v \<le> start_any int_str p f"
    by (simp add: start_any_def)
  have "successively (progress_any int_str q) (f # fs)"
    using assms(1,2) ch bound run by (rule pages_any_trace)
  then have "sorted_wrt (progress_any int_str q) (f # fs)"
    using successively_conv_sorted_wrt[OF progress_any_transp] by blast
  with run show ?thesis by (simp add: scrape_any_def)
qed

lemma thirteen_records_pages:
  "fst (fetch_issue_pages_for_project 5 test_scraper (key_server thirteen_records) ''P'' 2 None
          (start_any (\<lambda>t. None) ''P'' stored_ten))
     = [([Some (lit ''B''), Some (lit ''A'')], 10, Some 13), ([Some (lit ''C'')], 12, Some 13)]"
  by code_simp

lemma thirteen_records_run:
  "map (get_last_start_any (\<lambda>t. None) ''P'')
     (stored_ten #
        fst (scrape_any (\<lambda>t. None) 5 test_scraper (key_server thirteen_records) ''P'' 2 None stored_ten))
     = [Inr 10, Inr 10, Inr 10, Inr 12, Inr 12, Inr 13] \<and>
   map (is_downloaded_any ''P'' (lit ''B''))
     (stored_ten #
        fst (scrape_any (\<lambda>t. None) 5 test_scraper (key_server thirteen_records) ''P'' 2 None stored_ten))
     = [Inr False, Inr True, Inr True, Inr True, Inr True, Inr True] \<and>
   snd (scrape_any (\<lambda>t. None) 5 test_scraper (key_server thirteen_records) ''P'' 2 None stored_ten)
     = None"
  by code_simp

text \<open>
  The theorem at a run resumed at offset 10 with the key A stored: the server serves the
  keys B and A, then C, in pages of two. The run leaves five files, the offsets read 10,
  10, 10, 12, 12 and 13, and B is found from the first of the five on.
\<close>

theorem checkpoint_progress_monotone_witness:
  "encodable_file stored_ten \<and>
   sorted_wrt (progress_any (\<lambda>t. None) ''P'')
     (stored_ten #
        fst (scrape_any (\<lambda>t. None) 5 test_scraper (key_server thirteen_records) ''P'' 2 None stored_ten)) \<and>
   map (get_last_start_any (\<lambda>t. None) ''P'')
     (stored_ten #
        fst (scrape_any (\<lambda>t. None) 5 test_scraper (key_server thirteen_records) ''P'' 2 None stored_ten))
     = [Inr 10, Inr 10, Inr 10, Inr 12, Inr 12, Inr 13]"
proof -
  have enc: "encodable_file stored_ten" by code_simp
  have keys: "\<forall>page \<in> set (fst (fetch_issue_pages_for_project 5 test_scraper
        (key_server thirteen_records) ''P'' 2 None (start_any (\<lambda>t. None) ''P'' stored_ten))).
      \<forall>k. Some k \<in> set (fst page) \<longrightarrow> encodable k"
    unfolding thirteen_records_pages by auto
  from checkpoint_progress_monotone[OF enc keys, of "''P''"] enc thirteen_records_run
  show ?thesis by blast
qed

text \<open>
  C7 as stated fails when a write of the checkpoint fails. The file has the offset 10
  and the key A for project P; the run resumes at 10 and is served one record, whose key
  is a lone surrogate. \<^verbatim>\<open>mark_downloaded\<close> appends the key in memory, \<^verbatim>\<open>write_text\<close> empties
  the file and raises \<^verbatim>\<open>UnicodeEncodeError\<close>, the \<^verbatim>\<open>except\<close> of line 72 ends the project. On
  the empty file the offset reads 0 and A is not found.
\<close>

theorem failed_write_empties_store_counterexample:
  "get_last_start_any (\<lambda>t. None) ''P'' stored_ten = Inr 10 \<and>
   is_downloaded_any ''P'' (lit ''A'') stored_ten = Inr True \<and>
   scrape_any (\<lambda>t. None) 5 test_scraper (key_server surrogate_record) ''P'' 50 None stored_ten
     = ([Garbled], Some UnicodeEncodeError) \<and>
   get_last_start_any (\<lambda>t. None) ''P'' Garbled = Inr 0 \<and>
   is_downloaded_any ''P'' (lit ''A'') Garbled = Inr False \<and>
   \<not> sorted_wrt (progress_any (\<lambda>t. None) ''P'')
       (stored_ten #
          fst (scrape_any (\<lambda>t. None) 5 test_scraper (key_server surrogate_record) ''P'' 50 None
                 stored_ten))"
proof -
  have a: "get_last_start_any (\<lambda>t. None) ''P'' stored_ten = Inr 10" by code_simp
  have b: "is_downloaded_any ''P'' (lit ''A'') stored_ten = Inr True" by code_simp
  have c: "scrape_any (\<lambda>t. None) 5 test_scraper (key_server surrogate_record) ''P'' 50 None stored_ten
     = ([Garbled], Some UnicodeEncodeError)" by code_simp
  have d: "get_last_start_any (\<lambda>t. None) ''P'' Garbled = Inr 0" by code_simp
  have e: "is_downloaded_any ''P'' (lit ''A'') Garbled = Inr False" by code_simp
  have "\<not> progress_any (\<lambda>t. None) ''P'' stored_ten Garbled"
    unfolding progress_any_def using a d by simp
  then have "\<not> sorted_wrt (progress_any (\<lambda>t. None) ''P'')
       (stored_ten #
          fst (scrape_any (\<lambda>t. None) 5 test_scraper (key_server surrogate_record) ''P'' 50 None
                 stored_ten))"
    unfolding c by simp
  with a b c d e show ?thesis by blast
qed

subsection \<open>Concurrent callers of the checkpoint store\<close>

lemma holds_lock_simps [simp]:
  "holds_lock (Called op) = False" "holds_lock (Read_done op d) = False"
  "holds_lock (Waiting d) = False" "holds_lock (Holding d) = True"
  "holds_lock Written = True" "holds_lock Returned = False"
  by (simp_all add: holds_lock_def)

lemma lock_inv_update:
  assumes "lock_inv s" and "holds_lock p = holds_lock (pcs s t)"
  shows "lock_inv (s\<lparr>pcs := (pcs s)(t := p)\<rparr>)"
  using assms by (simp add: lock_inv_def)



lemma step_Called:
  "pcs s t = Called op \<Longrightarrow>
   step t s = Some (s\<lparr>pcs := (pcs s)(t := Read_done op (load_checkpoint (store_file s)))\<rparr>)"
  unfolding step_def by (simp only: pc.case)

lemma step_Read_done:
  "pcs s t = Read_done op data \<Longrightarrow>
   step t s = Some (s\<lparr>pcs := (pcs s)(t := Waiting (in_memory op data))\<rparr>)"
  unfolding step_def by (simp only: pc.case)

lemma step_Waiting_free:
  "pcs s t = Waiting data \<Longrightarrow> lock s = None \<Longrightarrow>
   step t s = Some (s\<lparr>lock := Some t, pcs := (pcs s)(t := Holding data)\<rparr>)"
  unfolding step_def by (simp only: pc.case option.case)

lemma step_Waiting_held:
  "pcs s t = Waiting data \<Longrightarrow> lock s = Some h \<Longrightarrow> step t s = None"
  unfolding step_def by (simp only: pc.case option.case)

lemma step_Holding:
  "pcs s t = Holding data \<Longrightarrow>
   step t s = Some (s\<lparr>store_file := save_checkpoint data, pcs := (pcs s)(t := Written)\<rparr>)"
  unfolding step_def by (simp only: pc.case)

lemma step_Written:
  "pcs s t = Written \<Longrightarrow> step t s = Some (s\<lparr>lock := None, pcs := (pcs s)(t := Returned)\<rparr>)"
  unfolding step_def by (simp only: pc.case)

lemma step_Returned: "pcs s t = Returned \<Longrightarrow> step t s = None"
  unfolding step_def by (simp only: pc.case)


lemma step_lock_inv:
  assumes "lock_inv s" and "step t s = Some s'"
  shows "lock_inv s'"
proof (cases "pcs s t")
  case (Called op)
  from assms(2) have "s' = s\<lparr>pcs := (pcs s)(t := Read_done op (load_checkpoint (store_file s)))\<rparr>"
    unfolding step_Called[OF Called] by simp
  with assms(1) Called show ?thesis by (simp add: lock_inv_update)
next
  case (Read_done op data)
  from assms(2) have "s' = s\<lparr>pcs := (pcs s)(t := Waiting (in_memory op data))\<rparr>"
    unfolding step_Read_done[OF Read_done] by simp
  with assms(1) Read_done show ?thesis by (simp add: lock_inv_update)
next
  case (Waiting data)
  show ?thesis
  proof (cases "lock s")
    case None
    from assms(2) have s': "s' = s\<lparr>lock := Some t, pcs := (pcs s)(t := Holding data)\<rparr>"
      unfolding step_Waiting_free[OF Waiting None] by simp
    from assms(1) have inv: "holds_lock (pcs s u) \<longleftrightarrow> lock s = Some u" for u
      unfolding lock_inv_def by (rule spec)
    have "holds_lock (pcs s' u) \<longleftrightarrow> lock s' = Some u" for u
    proof (cases "u = t")
      case True
      then show ?thesis by (simp add: s')
    next
      case False
      with inv[of u] None have "\<not> holds_lock (pcs s u)" by simp
      with False show ?thesis by (auto simp: s')
    qed
    then show ?thesis unfolding lock_inv_def by (rule allI)
  next
    case (Some h)
    from assms(2) show ?thesis unfolding step_Waiting_held[OF Waiting Some] by simp
  qed
next
  case (Holding data)
  from assms(2) have s': "s' = s\<lparr>store_file := save_checkpoint data, pcs := (pcs s)(t := Written)\<rparr>"
    unfolding step_Holding[OF Holding] by simp
  from assms(1) Holding have "lock_inv (s\<lparr>pcs := (pcs s)(t := Written)\<rparr>)"
    by (simp add: lock_inv_update)
  then show ?thesis unfolding s' by (simp add: lock_inv_def)
next
  case Written
  from assms(2) have s': "s' = s\<lparr>lock := None, pcs := (pcs s)(t := Returned)\<rparr>"
    unfolding step_Written[OF Written] by simp
  from assms(1) have inv: "holds_lock (pcs s u) \<longleftrightarrow> lock s = Some u" for u
    unfolding lock_inv_def by (rule spec)
  from inv[of t] have held: "lock s = Some t" by (simp add: Written)
  have "holds_lock (pcs s' u) \<longleftrightarrow> lock s' = Some u" for u
  proof (cases "u = t")
    case True
    then show ?thesis by (simp add: s')
  next
    case False
    with inv[of u] held have "\<not> holds_lock (pcs s u)" by simp
    with False show ?thesis by (simp add: s')
  qed
  then show ?thesis unfolding lock_inv_def by (rule allI)
next
  case Returned
  from assms(2) show ?thesis unfolding step_Returned[OF Returned] by simp
qed


lemma run_lock_inv: "lock_inv s \<Longrightarrow> run sched s = Some s' \<Longrightarrow> lock_inv s'"
proof (induction sched arbitrary: s)
  case Nil
  then show ?case by simp
next
  case (Cons t ts)
  from Cons.prems(2) obtain s1 where s1: "step t s = Some s1" and rest: "run ts s1 = Some s'"
    by (cases "step t s") simp_all
  from Cons.prems(1) s1 have "lock_inv s1" by (rule step_lock_inv)
  then show ?case using rest by (rule Cons.IH)
qed

lemma sequential_eq:
  "sequential op f = save_checkpoint (in_memory op (load_checkpoint f))"
  by (cases op) (simp_all add: sequential_def in_memory_def mark_downloaded_def set_last_start_def)

lemma run_alone:
  assumes c: "pcs s t = Called op" and free: "lock s = None"
  shows "map_option store_file (run [t, t, t, t, t] s) = Some (sequential op (store_file s))"
proof -
  let ?d = "load_checkpoint (store_file s)"
  let ?s1 = "s\<lparr>pcs := (pcs s)(t := Read_done op ?d)\<rparr>"
  let ?s2 = "?s1\<lparr>pcs := (pcs ?s1)(t := Waiting (in_memory op ?d))\<rparr>"
  let ?s3 = "?s2\<lparr>lock := Some t, pcs := (pcs ?s2)(t := Holding (in_memory op ?d))\<rparr>"
  let ?s4 = "?s3\<lparr>store_file := save_checkpoint (in_memory op ?d), pcs := (pcs ?s3)(t := Written)\<rparr>"
  let ?s5 = "?s4\<lparr>lock := None, pcs := (pcs ?s4)(t := Returned)\<rparr>"
  have 1: "step t s = Some ?s1" by (rule step_Called[OF c])
  have 2: "step t ?s1 = Some ?s2" by (rule step_Read_done) simp
  have 3: "step t ?s2 = Some ?s3" by (rule step_Waiting_free) (simp_all add: free)
  have 4: "step t ?s3 = Some ?s4" by (rule step_Holding) simp
  have 5: "step t ?s4 = Some ?s5" by (rule step_Written) simp
  have "run [t, t, t, t, t] s = Some ?s5"
    by (simp only: run.simps 1 2 3 4 5 option.case)
  then show ?thesis by (simp add: sequential_eq)
qed

text \<open>
  C5, as the code has it. Only the write-back is done under the lock. From a state in
  which nobody holds the lock, whatever the schedule: a thread is between taking and
  releasing \<^verbatim>\<open>_LOCK\<close> (about to write, or having written) exactly when it is the holder of
  the lock, so the writes of two calls never overlap; a thread that has been called can
  always read the file, whoever holds the lock, and reading takes no lock. A call that
  runs alone has the effect of the sequential function.
\<close>

theorem write_back_holds_lock:
  assumes "lock s0 = None" and "\<forall>t. \<not> holds_lock (pcs s0 t)" and "run sched s0 = Some s"
  shows "(\<forall>t. holds_lock (pcs s t) \<longleftrightarrow> lock s = Some t) \<and>
         (\<forall>t op. pcs s t = Called op \<longrightarrow>
            (\<exists>s'. step t s = Some s' \<and> has_read (pcs s' t) \<and> lock s' = lock s \<and>
                  store_file s' = store_file s)) \<and>
         (\<forall>t op. pcs s0 t = Called op \<longrightarrow>
            map_option store_file (run [t, t, t, t, t] s0) = Some (sequential op (store_file s0)))"
proof -
  from assms(1,2) have "lock_inv s0" by (simp add: lock_inv_def)
  then have "lock_inv s" using assms(3) by (rule run_lock_inv)
  then have a: "\<forall>t. holds_lock (pcs s t) \<longleftrightarrow> lock s = Some t" by (simp add: lock_inv_def)
  have b: "\<exists>s'. step t s = Some s' \<and> has_read (pcs s' t) \<and> lock s' = lock s \<and>
                  store_file s' = store_file s" if "pcs s t = Called op" for t op
    unfolding step_Called[OF that] by (simp add: has_read_def)
  have c: "map_option store_file (run [t, t, t, t, t] s0) = Some (sequential op (store_file s0))"
    if "pcs s0 t = Called op" for t op
    using that assms(1) by (rule run_alone)
  from a b c show ?thesis by blast
qed

lemma two_callers_start:
  "lock two_callers = None \<and> (\<forall>t. \<not> holds_lock (pcs two_callers t))"
  by (simp add: two_callers_def)

lemma two_callers_run:
  "case run [0, 1, 0, 0] two_callers of
     None \<Rightarrow> False
   | Some s \<Rightarrow> holds_lock (pcs s 0) \<and> \<not> holds_lock (pcs s 1) \<and> lock s = Some 0"
  by code_simp

theorem write_back_holds_lock_witness:
  "lock two_callers = None \<and>
   (case run [0, 1, 0, 0] two_callers of
      None \<Rightarrow> False
    | Some s \<Rightarrow> (holds_lock (pcs s 0) \<longleftrightarrow> lock s = Some 0) \<and>
               (holds_lock (pcs s 1) \<longleftrightarrow> lock s = Some 1) \<and> lock s = Some 0) \<and>
   map_option store_file (run [0, 0, 0, 0, 0] two_callers)
     = Some (mark_downloaded ''P'' ''K-1'' Missing)"
proof (cases "run [0, 1, 0, 0] two_callers")
  case None
  with two_callers_run show ?thesis by simp
next
  case (Some s)
  have c: "pcs two_callers 0 = Called (Mark_downloaded ''P'' ''K-1'')"
    by (simp add: two_callers_def)
  from two_callers_start have 1: "lock two_callers = None"
    and 2: "\<forall>t. \<not> holds_lock (pcs two_callers t)" by blast+
  from write_back_holds_lock[OF 1 2 Some]
  have A: "\<forall>t. holds_lock (pcs s t) \<longleftrightarrow> lock s = Some t"
    and C: "\<forall>t op. pcs two_callers t = Called op \<longrightarrow>
      map_option store_file (run [t, t, t, t, t] two_callers)
        = Some (sequential op (store_file two_callers))"
    by blast+
  from C c have "map_option store_file (run [0, 0, 0, 0, 0] two_callers)
      = Some (sequential (Mark_downloaded ''P'' ''K-1'') (store_file two_callers))"
    by blast
  moreover have "store_file two_callers = Missing" by (simp add: two_callers_def)
  moreover have "sequential (Mark_downloaded ''P'' ''K-1'') Missing = mark_downloaded ''P'' ''K-1'' Missing"
    by (simp add: sequential_def)
  ultimately have D: "map_option store_file (run [0, 0, 0, 0, 0] two_callers)
      = Some (mark_downloaded ''P'' ''K-1'' Missing)"
    by (simp only:)
  from two_callers_run have "lock s = Some 0" unfolding Some by simp
  with A have "(holds_lock (pcs s 0) \<longleftrightarrow> lock s = Some 0) \<and>
      (holds_lock (pcs s 1) \<longleftrightarrow> lock s = Some 1) \<and> lock s = Some 0"
    by blast
  with 1 D show ?thesis unfolding Some by (simp only: option.case simp_thms)
qed

text \<open>
  C5 as stated fails. Thread 0 reads the absent file while nobody holds the lock, thread
  1 reads it next, before thread 0 has written; then each call runs to its end. Both
  calls return, and the key that thread 0 marked is not in the file.
\<close>

theorem read_outside_lock_counterexample:
  "(case run [0, 1] two_callers of
      None \<Rightarrow> False
    | Some s \<Rightarrow> has_read (pcs s 0) \<and> has_read (pcs s 1) \<and> lock s = None) \<and>
   (case run [0, 1, 0, 0, 0, 0, 1, 1, 1, 1] two_callers of
      None \<Rightarrow> False
    | Some s \<Rightarrow> has_returned (pcs s 0) \<and> has_returned (pcs s 1) \<and> lock s = None \<and>
        \<not> is_downloaded ''P'' ''K-1'' (store_file s) \<and> is_downloaded ''P'' ''K-2'' (store_file s))"
  by code_simp

end
